theory Spec2Isabelle
  imports Main
begin

section \<open>Python values used by generate\_index.py\<close>

text \<open>
  The script handles decoded JSON throughout (the packages file, the provider's
  responses, the cache and the index). A decoded document is a value of \<open>json\<close>;
  an object keeps its items in an association list, read with \<open>map_of\<close>.
  JSON numbers with a fraction are left out: no claim looks at one.
\<close>

datatype json =
    JNull
  | JBool bool
  | JInt int
  | JStr string
  | JList "json list"
  | JDict "(string \<times> json) list"

text \<open>The exceptions the script can raise and never catches, and the two ways a run stops early.\<close>

datatype exn =
    KeyError
  | TypeError
  | AttributeError
  | JSONDecodeError
  | MissingSchema
  | RequestException

datatype abort =
    SysExit int
  | Uncaught exn

text \<open>A header value is a \<open>str\<close>; line 91 compares one with the \<open>int\<close> literal \<open>0\<close>.\<close>

datatype pyval = PyStr string | PyInt int

text \<open>\<open>d[key]\<close> for a string key: only a dict can be subscripted by a string.\<close>

fun subscript :: "json \<Rightarrow> string \<Rightarrow> exn + json" where
  "subscript (JDict kvs) k = (case map_of kvs k of None \<Rightarrow> Inl KeyError | Some v \<Rightarrow> Inr v)"
| "subscript _ k = Inl TypeError"

text \<open>\<open>len(x)\<close>: defined on dict, list and str only.\<close>

fun py_len :: "json \<Rightarrow> exn + nat" where
  "py_len (JDict kvs) = Inr (length (remdups (map fst kvs)))"
| "py_len (JList xs) = Inr (length xs)"
| "py_len (JStr cs) = Inr (length cs)"
| "py_len _ = Inl TypeError"

fun startswith :: "string \<Rightarrow> string \<Rightarrow> bool" where
  "startswith s [] = True"
| "startswith [] (c # cs) = False"
| "startswith (x # xs) (c # cs) = (x = c \<and> startswith xs cs)"

fun has_substring :: "string \<Rightarrow> string \<Rightarrow> bool" where
  "has_substring [] k = (k = [])"
| "has_substring (x # xs) k = (startswith (x # xs) k \<or> has_substring xs k)"

text \<open>\<open>key in x\<close> for a string key: key of a dict, element of a list, substring of a str.\<close>

fun py_in :: "string \<Rightarrow> json \<Rightarrow> exn + bool" where
  "py_in k (JDict kvs) = Inr (map_of kvs k \<noteq> None)"
| "py_in k (JList xs) = Inr (JStr k \<in> set xs)"
| "py_in k (JStr cs) = Inr (has_substring cs k)"
| "py_in k _ = Inl TypeError"

text \<open>\<open>s.split(sep)\<close> for a one-character separator: never the empty list.\<close>

fun str_split :: "char \<Rightarrow> string \<Rightarrow> string list" where
  "str_split sep [] = [[]]"
| "str_split sep (c # cs) =
     (if c = sep then [] # str_split sep cs
      else (case str_split sep cs of [] \<Rightarrow> [[c]] | p # ps \<Rightarrow> (c # p) # ps))"

section \<open>The version filter: \<open>re.match(VERSION_REGEX, tag)\<close>\<close>

text \<open>
  The pattern of line 33, \<^verbatim>\<open>^v[\d]+\.[\d]+\.[\d]+$\<close>, as a sequence of items, and a
  backtracking matcher for such sequences. \<open>re.match\<close> anchors at the start of the
  string only. Without the MULTILINE flag \<^verbatim>\<open>^\<close> holds at the start of the string and
  \<^verbatim>\<open>$\<close> holds at the end of the string and also just before a newline that ends the
  string. Characters are code points below 256, where \<^verbatim>\<open>\d\<close> is the ten ASCII digits.
\<close>

datatype rx_item = Bol | Eol | Lit char | Digits1

definition is_digit :: "char \<Rightarrow> bool" where
  "is_digit c = (c \<in> set ''0123456789'')"

definition newline :: char where
  "newline = CHR 0x0A"

fun rx_match :: "rx_item list \<Rightarrow> bool \<Rightarrow> string \<Rightarrow> bool" where
  "rx_match [] at_start s = True"
| "rx_match (Bol # rs) at_start s = (at_start \<and> rx_match rs at_start s)"
| "rx_match (Eol # rs) at_start s = ((s = [] \<or> s = [newline]) \<and> rx_match rs at_start s)"
| "rx_match (Lit c # rs) at_start [] = False"
| "rx_match (Lit c # rs) at_start (x # xs) = (x = c \<and> rx_match rs False xs)"
| "rx_match (Digits1 # rs) at_start [] = False"
| "rx_match (Digits1 # rs) at_start (x # xs) =
     (is_digit x \<and> (rx_match (Digits1 # rs) False xs \<or> rx_match rs False xs))"

definition re_match :: "rx_item list \<Rightarrow> string \<Rightarrow> bool" where
  "re_match rx s = rx_match rx True s"

definition VERSION_REGEX :: "rx_item list" where
  "VERSION_REGEX =
     [Bol, Lit CHR ''v'', Digits1, Lit CHR ''.'', Digits1, Lit CHR ''.'', Digits1, Eol]"

text \<open>
  The filter in the words of the specification: the character v, then exactly three
  dot-separated runs of decimal digits, none empty, and nothing else.
\<close>

definition spec_is_valid_version :: "string \<Rightarrow> bool" where
  "spec_is_valid_version tag =
     (case tag of
        [] \<Rightarrow> False
      | c # rest \<Rightarrow>
          c = CHR ''v'' \<and>
          (let parts = str_split CHR ''.'' rest
           in length parts = 3 \<and> list_all (\<lambda>p. p \<noteq> [] \<and> list_all is_digit p) parts))"

section \<open>The data of a run\<close>

text \<open>A Package Descriptor of the packages file (\<open>package\<close> in the loop of line 79).\<close>

record package =
  pkg_id :: string
  git_provider :: string
  git_owner :: string
  git_repository :: string
  pkg_icon :: string

text \<open>
  What \<open>requests.get\<close> is called with and what it returns. \<open>json_body\<close> is the
  result of \<open>response.json()\<close>: \<open>None\<close> when the body does not decode and the call
  raises. Header values are strings; header names are written as the script writes them.
\<close>

record request =
  url :: string
  req_headers :: "(string \<times> string) list"

record response =
  status_code :: int
  headers :: "(string \<times> string) list"
  json_body :: "json option"

text \<open>
  The provider, seen from the script: the reply to a request, which may depend on how
  many requests the run has issued before. \<open>None\<close> is a call of \<open>requests.get\<close> that
  raises (a timeout, a refused connection).
\<close>

type_synonym provider = "nat \<Rightarrow> request \<Rightarrow> response option"

text \<open>The calls of \<open>requests.get\<close> in the order the run makes them, each with its reply.\<close>

datatype event =
    TagsFetch string request "response option"
  | MetadataFetch string string request "response option"

record cache_entry =
  ETag :: string
  Content :: json

record version_info =
  dependencies :: json
  compatibility :: json

text \<open>
  A Package Record. The header of lines 118 to 126 has no \<open>name\<close> and no
  \<open>description\<close> key; line 159 adds them.
\<close>

record package_record =
  git :: json
  versions :: "string \<rightharpoonup> version_info"
  icon :: json
  name :: "json option"
  description :: "json option"

record index_doc =
  packages :: "string \<rightharpoonup> package_record"

text \<open>
  The state of a run: the dictionaries \<open>cache\<close>, \<open>index\<close> and \<open>stats\<close> of
  \<open>main\<close>, the two files, and the requests issued so far. A key of \<open>cache\<close> bound to
  \<open>None\<close> by the \<open>defaultdict\<close> is an absent key of the map. A file is \<open>None\<close> when it
  is absent (the cache file also when it cannot be read, line 61).
\<close>

record state =
  cache :: "string \<rightharpoonup> cache_entry"
  index :: index_doc
  hits :: int
  misses :: int
  num_packages :: int
  cache_file :: "(string \<rightharpoonup> cache_entry) option"
  index_file :: "index_doc option"
  trace :: "event list"

type_synonym result = "(abort \<times> state) + state"

text \<open>The state a run stops in, and the exit status of the process.\<close>

fun final :: "result \<Rightarrow> state" where
  "final (Inl (a, s)) = s"
| "final (Inr s) = s"

fun exit_code :: "result \<Rightarrow> int" where
  "exit_code (Inr s) = 0"
| "exit_code (Inl (SysExit n, s)) = n"
| "exit_code (Inl (Uncaught e, s)) = 1"

section \<open>The provider adapter\<close>

definition NO_COMPATIBILITY_DATA :: json where
  "NO_COMPATIBILITY_DATA =
     JDict [(''compose'', JDict [(''minimum'', JStr ''v0.0.0''), (''maximum'', JStr ''v0.9.9'')])]"

text \<open>\<open>GIT_PROVIDER_TO_TAGS_URL[package['git_provider']].format(**package)\<close>, line 82.\<close>

definition tags_url :: "package \<Rightarrow> exn + string" where
  "tags_url p =
     (if git_provider p = ''github.com'' then
        Inr (''https://api.github.com/repos/'' @ git_owner p @ ''/'' @ git_repository p
             @ ''/git/refs/tags'')
      else if git_provider p = ''bitbucket.com'' then Inr ''NOT_SUPPORTED_YET''
      else Inl KeyError)"

text \<open>\<open>GIT_PROVIDER_TO_RAW_URL[...].format(tag=tag, object='metadata.json', **package)\<close>, line 140.\<close>

definition metadata_url :: "package \<Rightarrow> string \<Rightarrow> exn + string" where
  "metadata_url p tag =
     (if git_provider p = ''github.com'' then
        Inr (''https://raw.githubusercontent.com/'' @ git_owner p @ ''/'' @ git_repository p
             @ ''/'' @ tag @ ''/metadata.json'')
      else if git_provider p = ''bitbucket.com'' then Inr ''NOT_SUPPORTED_YET''
      else Inl KeyError)"

text \<open>\<open>requests.get\<close> raises MissingSchema, before any network activity, on a URL with no scheme.\<close>

definition has_scheme :: "string \<Rightarrow> bool" where
  "has_scheme u = (startswith u ''http://'' \<or> startswith u ''https://'')"

section \<open>The loop over the tags of a package, lines 128 to 173\<close>

text \<open>Lines 159 to 173: the fetched metadata is merged into the Package Record \<open>r\<close>.\<close>

definition store_package :: "package \<Rightarrow> package_record \<Rightarrow> state \<Rightarrow> state" where
  "store_package p r s =
     s\<lparr>index := (index s)\<lparr>packages := (packages (index s))(pkg_id p \<mapsto> r)\<rparr>\<rparr>"

definition record_version ::
  "package \<Rightarrow> string \<Rightarrow> json \<Rightarrow> package_record \<Rightarrow> state \<Rightarrow> result" where
  "record_version p tag metadata r s =
     (case subscript metadata ''name'' of
        Inl e \<Rightarrow> Inl (Uncaught e, s)
      | Inr nm \<Rightarrow>
     (case subscript metadata ''description'' of
        Inl e \<Rightarrow> Inl (Uncaught e, s)
      | Inr ds \<Rightarrow>
     (let r1 = r\<lparr>name := Some nm, description := Some ds\<rparr>;
          s1 = store_package p r1 s
      in
     (case subscript metadata ''dependencies'' of
        Inl e \<Rightarrow> Inl (Uncaught e, s1)
      | Inr dp \<Rightarrow>
     (case subscript dp ''packages'' of
        Inl e \<Rightarrow> Inl (Uncaught e, s1)
      | Inr deps \<Rightarrow>
     (case py_in ''compatibility'' metadata of
        Inl e \<Rightarrow> Inl (Uncaught e, s1)
      | Inr False \<Rightarrow>
          Inr (store_package p
                 (r1\<lparr>versions := (versions r1)(tag \<mapsto>
                    \<lparr>dependencies = deps, compatibility = NO_COMPATIBILITY_DATA\<rparr>)\<rparr>) s1)
      | Inr True \<Rightarrow>
     (case subscript metadata ''compatibility'' of
        Inl e \<Rightarrow> Inl (Uncaught e, s1)
      | Inr cp \<Rightarrow>
     (case py_in ''compose'' cp of
        Inl e \<Rightarrow> Inl (Uncaught e, s1)
      | Inr has_compose \<Rightarrow>
          Inr (store_package p
                 (r1\<lparr>versions := (versions r1)(tag \<mapsto>
                    \<lparr>dependencies = deps,
                     compatibility = (if has_compose then cp else NO_COMPATIBILITY_DATA)\<rparr>)\<rparr>)
                 s1)))))))))"

text \<open>One iteration of the loop of line 128.\<close>

definition process_tag :: "provider \<Rightarrow> package \<Rightarrow> string \<Rightarrow> state \<Rightarrow> result" where
  "process_tag net p tag s =
     (if \<not> re_match VERSION_REGEX tag then Inr s
      else
     (case packages (index s) (pkg_id p) of
        None \<Rightarrow> Inl (Uncaught KeyError, s)
      | Some r \<Rightarrow>
          if versions r tag \<noteq> None then Inr (s\<lparr>hits := hits s + 1\<rparr>)
          else
     (let s1 = s\<lparr>misses := misses s + 1\<rparr> in
     (case metadata_url p tag of
        Inl e \<Rightarrow> Inl (Uncaught e, s1)
      | Inr u \<Rightarrow>
          if \<not> has_scheme u then Inl (Uncaught MissingSchema, s1)
          else
     (let rq = \<lparr>url = u, req_headers = []\<rparr>;
          reply = net (length (trace s1)) rq;
          s2 = s1\<lparr>trace := trace s1 @ [MetadataFetch (pkg_id p) tag rq reply]\<rparr>
      in
     (case reply of
        None \<Rightarrow> Inl (Uncaught RequestException, s2)
      | Some resp \<Rightarrow>
          if status_code resp = 404 then Inr s2
          else
     (case (if status_code resp = 200
            then (case json_body resp of None \<Rightarrow> Inl JSONDecodeError | Some j \<Rightarrow> Inr j)
            else Inr (JDict [])) of
        Inl e \<Rightarrow> Inl (Uncaught e, s2)
      | Inr metadata \<Rightarrow>
     (case py_len metadata of
        Inl e \<Rightarrow> Inl (Uncaught e, s2)
      | Inr n \<Rightarrow>
          if n = 0 then Inr s2 else record_version p tag metadata r s2))))))))"

fun tags_loop :: "provider \<Rightarrow> package \<Rightarrow> string list \<Rightarrow> state \<Rightarrow> result" where
  "tags_loop net p [] s = Inr s"
| "tags_loop net p (tag # tags) s =
     (case process_tag net p tag s of
        Inl a \<Rightarrow> Inl a
      | Inr s' \<Rightarrow> tags_loop net p tags s')"

section \<open>The loop over the packages, lines 79 to 175\<close>

text \<open>Line 91: \<open>response.status_code == 401 and response.headers['X-RateLimit-Remaining'] == 0\<close>.\<close>

definition quota_exhausted :: "response \<Rightarrow> exn + bool" where
  "quota_exhausted resp =
     (if status_code resp = 401 then
        (case map_of (headers resp) ''X-RateLimit-Remaining'' of
           None \<Rightarrow> Inl KeyError
         | Some h \<Rightarrow> Inr (PyStr h = PyInt 0))
      else Inr False)"

text \<open>Lines 99 to 109: a fresh tag list replaces the Cache Entry and the cache file is rewritten.\<close>

definition update_cache :: "bool \<Rightarrow> package \<Rightarrow> response \<Rightarrow> state \<Rightarrow> result" where
  "update_cache no_cache p resp s =
     (if status_code resp = 200 then
        (let s1 = s\<lparr>misses := misses s + 1\<rparr> in
         (case map_of (headers resp) ''ETag'' of
            None \<Rightarrow> Inl (Uncaught KeyError, s1)
          | Some t \<Rightarrow>
         (case json_body resp of
            None \<Rightarrow> Inl (Uncaught JSONDecodeError, s1)
          | Some body \<Rightarrow>
         (let s2 = s1\<lparr>cache := (cache s1)(pkg_id p \<mapsto> \<lparr>ETag = t, Content = body\<rparr>)\<rparr>
          in Inr (if no_cache then s2 else s2\<lparr>cache_file := Some (cache s2)\<rparr>)))))
      else Inr s)"

text \<open>Line 115: \<open>[b['ref'].split('/')[-1] for b in cache[package['id']]['Content']]\<close>.\<close>

definition tag_of_ref :: "json \<Rightarrow> exn + string" where
  "tag_of_ref b =
     (case subscript b ''ref'' of
        Inl e \<Rightarrow> Inl e
      | Inr (JStr r) \<Rightarrow> Inr (last (str_split CHR ''/'' r))
      | Inr _ \<Rightarrow> Inl AttributeError)"

fun collect_tags :: "json list \<Rightarrow> exn + string list" where
  "collect_tags [] = Inr []"
| "collect_tags (b # bs) =
     (case tag_of_ref b of
        Inl e \<Rightarrow> Inl e
      | Inr t \<Rightarrow> (case collect_tags bs of Inl e \<Rightarrow> Inl e | Inr ts \<Rightarrow> Inr (t # ts)))"

text \<open>Iterating a dict yields its keys, iterating a str its characters.\<close>

fun get_tags :: "json \<Rightarrow> exn + string list" where
  "get_tags (JList bs) = collect_tags bs"
| "get_tags (JDict kvs) = collect_tags (map JStr (remdups (map fst kvs)))"
| "get_tags (JStr cs) = collect_tags (map (\<lambda>c. JStr [c]) cs)"
| "get_tags _ = Inl TypeError"

text \<open>Lines 117 to 126: the header of a package the index does not have yet.\<close>

definition package_header :: "package \<Rightarrow> package_record" where
  "package_header p =
     \<lparr>git = JDict [(''provider'', JStr (git_provider p)), (''owner'', JStr (git_owner p)),
                   (''repository'', JStr (git_repository p))],
      versions = Map.empty,
      icon = JStr (pkg_icon p),
      name = None,
      description = None\<rparr>"

definition upsert_header :: "package \<Rightarrow> state \<Rightarrow> state" where
  "upsert_header p s =
     (if packages (index s) (pkg_id p) = None then store_package p (package_header p) s else s)"

text \<open>
  Lines 90 to 115: what the loop of line 79 does with the response to the tag-listing
  request. The tags are read from the Cache Entry the response leaves.
\<close>

definition read_tags ::
  "bool \<Rightarrow> package \<Rightarrow> response \<Rightarrow> state \<Rightarrow> (abort \<times> state) + (string list \<times> state)" where
  "read_tags no_cache p resp s1 =
     (case quota_exhausted resp of
        Inl e \<Rightarrow> Inl (Uncaught e, s1)
      | Inr True \<Rightarrow> Inl (SysExit 1, s1)
      | Inr False \<Rightarrow>
          if status_code resp = 404 then Inl (SysExit 2, s1)
          else
     (case update_cache no_cache p resp s1 of
        Inl a \<Rightarrow> Inl a
      | Inr s2 \<Rightarrow>
     (let s3 = (if status_code resp = 304 then s2\<lparr>hits := hits s2 + 1\<rparr> else s2) in
     (case cache s3 (pkg_id p) of
        None \<Rightarrow> Inl (Uncaught TypeError, s3)
      | Some c \<Rightarrow>
     (case get_tags (Content c) of
        Inl e \<Rightarrow> Inl (Uncaught e, s3)
      | Inr tags \<Rightarrow> Inr (tags, s3))))))"

text \<open>
  Lines 81 to 115, the first half of an iteration of the loop of line 79: the tag list
  is requested, conditionally when the package has a Cache Entry.
\<close>

definition refresh_tags ::
  "bool \<Rightarrow> provider \<Rightarrow> package \<Rightarrow> state \<Rightarrow> (abort \<times> state) + (string list \<times> state)" where
  "refresh_tags no_cache net p s =
     (case tags_url p of
        Inl e \<Rightarrow> Inl (Uncaught e, s)
      | Inr u \<Rightarrow>
          if \<not> has_scheme u then Inl (Uncaught MissingSchema, s)
          else
     (let rq = \<lparr>url = u,
                req_headers = (case cache s (pkg_id p) of
                                 None \<Rightarrow> []
                               | Some c \<Rightarrow> [(''If-None-Match'', ETag c)])\<rparr>;
          reply = net (length (trace s)) rq;
          s1 = s\<lparr>trace := trace s @ [TagsFetch (pkg_id p) rq reply]\<rparr>
      in
     (case reply of
        None \<Rightarrow> Inl (Uncaught RequestException, s1)
      | Some resp \<Rightarrow> read_tags no_cache p resp s1)))"

text \<open>One iteration of the loop of line 79: lines 81 to 115, then lines 117 to 175.\<close>

definition process_package :: "bool \<Rightarrow> provider \<Rightarrow> package \<Rightarrow> state \<Rightarrow> result" where
  "process_package no_cache net p s =
     (case refresh_tags no_cache net p s of
        Inl a \<Rightarrow> Inl a
      | Inr (tags, s3) \<Rightarrow>
     (case tags_loop net p tags (upsert_header p s3) of
        Inl a \<Rightarrow> Inl a
      | Inr s5 \<Rightarrow> Inr (s5\<lparr>num_packages := num_packages s5 + 1\<rparr>)))"

fun packages_loop :: "bool \<Rightarrow> provider \<Rightarrow> package list \<Rightarrow> state \<Rightarrow> result" where
  "packages_loop no_cache net [] s = Inr s"
| "packages_loop no_cache net (p # ps) s =
     (case process_package no_cache net p s of
        Inl a \<Rightarrow> Inl a
      | Inr s' \<Rightarrow> packages_loop no_cache net ps s')"

section \<open>The run\<close>

text \<open>
  \<open>main\<close>, lines 36 to 185, from the parsed arguments (\<open>--no-cache\<close> and the list of
  the packages file) and the two files as the run finds them. The cache is read
  unless caching is disabled (lines 56 to 62), the index likewise when its file
  exists (line 67), and the index is written after the last package (line 177).
\<close>

definition initial_state ::
  "bool \<Rightarrow> (string \<rightharpoonup> cache_entry) option \<Rightarrow> index_doc option \<Rightarrow> state" where
  "initial_state no_cache cfile ifile =
     \<lparr>cache = (if no_cache then Map.empty
               else (case cfile of None \<Rightarrow> Map.empty | Some c \<Rightarrow> c)),
      index = (if no_cache then \<lparr>packages = Map.empty\<rparr>
               else (case ifile of None \<Rightarrow> \<lparr>packages = Map.empty\<rparr> | Some d \<Rightarrow> d)),
      hits = 0,
      misses = 0,
      num_packages = 0,
      cache_file = cfile,
      index_file = ifile,
      trace = []\<rparr>"

definition main ::
  "bool \<Rightarrow> package list \<Rightarrow> provider \<Rightarrow> (string \<rightharpoonup> cache_entry) option \<Rightarrow> index_doc option
     \<Rightarrow> result" where
  "main no_cache pkgs net cfile ifile =
     (case packages_loop no_cache net pkgs (initial_state no_cache cfile ifile) of
        Inl a \<Rightarrow> Inl a
      | Inr s \<Rightarrow> Inr (s\<lparr>index_file := Some (index s)\<rparr>))"

section \<open>Notions used in the statements\<close>

text \<open>A non-empty run of decimal digits.\<close>

definition digits :: "string \<Rightarrow> bool" where
  "digits d = (d \<noteq> [] \<and> list_all is_digit d)"

text \<open>The Version Record of a tag of a package in an Index Document, if it has one (\<open>has_version\<close> of the specification).\<close>

definition version_of :: "index_doc \<Rightarrow> string \<Rightarrow> string \<Rightarrow> version_info option" where
  "version_of d i t = (case packages d i of None \<Rightarrow> None | Some r \<Rightarrow> versions r t)"

text \<open>The replies to a metadata request after which the script skips the tag: a status other than 200 (404 among them), or a decoded document of length 0.\<close>

definition skipped_reply :: "response option \<Rightarrow> bool" where
  "skipped_reply reply =
     (case reply of
        None \<Rightarrow> False
      | Some resp \<Rightarrow>
          status_code resp \<noteq> 200 \<or>
          (case json_body resp of None \<Rightarrow> False | Some md \<Rightarrow> py_len md = Inr 0))"

text \<open>Two comparisons of a Package Record with a later one: nothing but the entry of one tag may differ in the versions, and no entry is dropped or changed.\<close>

definition same_header :: "string \<Rightarrow> package_record \<Rightarrow> package_record \<Rightarrow> bool" where
  "same_header tag r r' =
     (git r' = git r \<and> icon r' = icon r \<and> (\<forall>t. t \<noteq> tag \<longrightarrow> versions r' t = versions r t))"

definition kept :: "package_record \<Rightarrow> package_record \<Rightarrow> bool" where
  "kept r r' =
     (git r' = git r \<and> icon r' = icon r \<and> (\<forall>t v. versions r t = Some v \<longrightarrow> versions r' t = Some v))"

text \<open>A metadata request is fresh for an Index Document when its tag passes the version filter and has no Version Record there.\<close>

definition fresh_fetch :: "index_doc \<Rightarrow> event \<Rightarrow> bool" where
  "fresh_fetch d e =
     (case e of
        TagsFetch i rq reply \<Rightarrow> True
      | MetadataFetch i t rq reply \<Rightarrow> re_match VERSION_REGEX t \<and> version_of d i t = None)"

text \<open>What every step of a run guarantees: the index file is not touched, every Package Record keeps its git, icon and Version Records, and the requests issued are fresh for the index the step started from.\<close>

definition progress :: "state \<Rightarrow> state \<Rightarrow> bool" where
  "progress s s' =
     (index_file s' = index_file s \<and>
      (\<forall>i r. packages (index s) i = Some r \<longrightarrow> (\<exists>r'. packages (index s') i = Some r' \<and> kept r r')) \<and>
      (\<exists>es. trace s' = trace s @ es \<and> list_all (fresh_fetch (index s)) es))"

text \<open>Kinds of events.\<close>

definition is_metadata_fetch :: "event \<Rightarrow> bool" where
  "is_metadata_fetch e = (case e of TagsFetch i rq reply \<Rightarrow> False | MetadataFetch i t rq reply \<Rightarrow> True)"

definition tags_not_found :: "event \<Rightarrow> bool" where
  "tags_not_found e =
     (case e of
        TagsFetch i rq reply \<Rightarrow> (case reply of None \<Rightarrow> False | Some resp \<Rightarrow> status_code resp = 404)
      | MetadataFetch i t rq reply \<Rightarrow> False)"

definition fetches_metadata :: "string \<Rightarrow> string \<Rightarrow> event \<Rightarrow> bool" where
  "fetches_metadata i t e =
     (case e of TagsFetch i' rq reply \<Rightarrow> False | MetadataFetch i' t' rq reply \<Rightarrow> i' = i \<and> t' = t)"

definition doc_version :: "index_doc option \<Rightarrow> string \<Rightarrow> string \<Rightarrow> version_info option" where
  "doc_version f i t = (case f of None \<Rightarrow> None | Some d \<Rightarrow> version_of d i t)"

text \<open>A trace is clean when no tag-listing request in it was answered not-found. A result stops at not-found when such an answer can only be its last event and then the exit is \<open>sys.exit(2)\<close>.\<close>

definition clean :: "event list \<Rightarrow> bool" where
  "clean es = (\<not> list_ex tags_not_found es)"

definition not_found_last :: "result \<Rightarrow> bool" where
  "not_found_last r =
     (case r of
        Inr s \<Rightarrow> clean (trace s)
      | Inl (a, s) \<Rightarrow> clean (butlast (trace s)) \<and> (\<not> clean (trace s) \<longrightarrow> a = SysExit 2))"

text \<open>An event that records no version for package \<open>i\<close>.\<close>

definition skipped_for :: "string \<Rightarrow> event \<Rightarrow> bool" where
  "skipped_for i e =
     (case e of
        TagsFetch i' rq reply \<Rightarrow> True
      | MetadataFetch i' t rq reply \<Rightarrow> i' \<noteq> i \<or> skipped_reply reply)"

text \<open>A run, or a part of one, that neither raises nor exits.\<close>

definition completed :: "result \<Rightarrow> bool" where
  "completed r = (case r of Inl a \<Rightarrow> False | Inr s \<Rightarrow> True)"

text \<open>A metadata document with no \<open>compatibility\<close> field, or whose \<open>compatibility\<close> is a mapping with no \<open>compose\<close> key.\<close>

definition no_compose_entry :: "json \<Rightarrow> bool" where
  "no_compose_entry md =
     (case md of
        JDict kvs \<Rightarrow>
          (case map_of kvs ''compatibility'' of
             None \<Rightarrow> True
           | Some (JDict cs) \<Rightarrow> map_of cs ''compose'' = None
           | Some _ \<Rightarrow> False)
      | _ \<Rightarrow> False)"

text \<open>\<open>metadata['dependencies']['packages']\<close>, and the relation between a Package Record \<open>r\<close> and the record \<open>r'\<close> after a version for \<open>tag\<close> was recorded from \<open>md\<close>.\<close>

definition metadata_dependencies :: "json \<Rightarrow> exn + json" where
  "metadata_dependencies md =
     (case subscript md ''dependencies'' of Inl e \<Rightarrow> Inl e | Inr dp \<Rightarrow> subscript dp ''packages'')"

definition recorded_from :: "json \<Rightarrow> string \<Rightarrow> package_record \<Rightarrow> package_record \<Rightarrow> bool" where
  "recorded_from md tag r r' =
     (map_option Inr (name r') = Some (subscript md ''name'') \<and>
      map_option Inr (description r') = Some (subscript md ''description'') \<and>
      git r' = git r \<and> icon r' = icon r \<and>
      (versions r')(tag := None) = (versions r)(tag := None) \<and>
      map_option (\<lambda>v. Inr (dependencies v)) (versions r' tag) = Some (metadata_dependencies md))"

text \<open>The tags in the Cache Entry of a package, those that pass the version filter, and the state in which each of them has a Version Record.\<close>

definition cached_tags :: "(string \<rightharpoonup> cache_entry) \<Rightarrow> package \<Rightarrow> string list" where
  "cached_tags c p =
     (case c (pkg_id p) of
        None \<Rightarrow> []
      | Some e \<Rightarrow> (case get_tags (Content e) of Inl x \<Rightarrow> [] | Inr ts \<Rightarrow> ts))"

definition valid_tags :: "(string \<rightharpoonup> cache_entry) \<Rightarrow> package \<Rightarrow> string list" where
  "valid_tags c p = filter (re_match VERSION_REGEX) (cached_tags c p)"



text \<open>One hit for the tag list of each package and one for each of its valid tags.\<close>

definition expected_hits :: "(string \<rightharpoonup> cache_entry) \<Rightarrow> package list \<Rightarrow> int" where
  "expected_hits c ps = (\<Sum>p\<leftarrow>ps. 1 + int (length (valid_tags c p)))"



text \<open>A pass over the packages that changes neither cache nor index, counts only hits and issues one tag-listing request per package.\<close>

definition idle :: "state \<Rightarrow> package list \<Rightarrow> state \<Rightarrow> bool" where
  "idle s ps s' =
     (index s' = index s \<and> cache s' = cache s \<and> cache_file s' = cache_file s \<and>
      index_file s' = index_file s \<and> misses s' = misses s \<and>
      hits s' = hits s + expected_hits (cache s) ps \<and>
      (\<exists>es. trace s' = trace s @ es \<and> length es = length ps \<and> \<not> list_ex is_metadata_fetch es))"

section \<open>Concrete runs\<close>

text \<open>
  A package and a provider to run the script on: the repository has the tags v1.0.0,
  main and v1.0.1, and every release carries the same metadata.json. A tag list
  requested with a validation token is answered not-modified.
\<close>

definition demo :: package where
  "demo = \<lparr>pkg_id = ''demoapp'', git_provider = ''github.com'', git_owner = ''acme'',
            git_repository = ''demo'', pkg_icon = ''demo.png''\<rparr>"

definition other :: package where
  "other = \<lparr>pkg_id = ''other'', git_provider = ''github.com'', git_owner = ''acme'',
             git_repository = ''other'', pkg_icon = ''other.png''\<rparr>"

definition refs :: "string list \<Rightarrow> json" where
  "refs ts = JList (map (\<lambda>t. JDict [(''ref'', JStr (''refs/tags/'' @ t))]) ts)"

definition demo_metadata :: json where
  "demo_metadata =
     JDict [(''name'', JStr ''Demo''), (''description'', JStr ''d''),
            (''dependencies'', JDict [(''packages'', JDict [])])]"

definition demo_tags_url :: string where
  "demo_tags_url = ''https://api.github.com/repos/acme/demo/git/refs/tags''"

definition tag_list_reply :: "request \<Rightarrow> response option" where
  "tag_list_reply rq =
     (if req_headers rq = [] then
        Some \<lparr>status_code = 200, headers = [(''ETag'', ''W/1'')],
              json_body = Some (refs [''v1.0.0'', ''main'', ''v1.0.1''])\<rparr>
      else Some \<lparr>status_code = 304, headers = [], json_body = None\<rparr>)"

definition demo_net :: provider where
  "demo_net n rq =
     (if url rq = demo_tags_url then tag_list_reply rq
      else Some \<lparr>status_code = 200, headers = [], json_body = Some demo_metadata\<rparr>)"

text \<open>The same repository when no release has a metadata.json.\<close>

definition bare_net :: provider where
  "bare_net n rq =
     (if url rq = demo_tags_url then tag_list_reply rq
      else Some \<lparr>status_code = 404, headers = [], json_body = None\<rparr>)"

text \<open>The same repository when metadata.json is served but is not JSON.\<close>

definition garbled_net :: provider where
  "garbled_net n rq =
     (if url rq = demo_tags_url then tag_list_reply rq
      else Some \<lparr>status_code = 200, headers = [], json_body = None\<rparr>)"

text \<open>A provider that answers every request with status 401 and no remaining quota.\<close>

definition quota_reply :: response where
  "quota_reply =
     \<lparr>status_code = 401, headers = [(''X-RateLimit-Remaining'', ''0'')], json_body = None\<rparr>"

definition quota_net :: provider where
  "quota_net n rq = Some quota_reply"

definition quota_cache :: "string \<rightharpoonup> cache_entry" where
  "quota_cache =
     [''demoapp'' \<mapsto> \<lparr>ETag = ''W/1'', Content = refs [''v1.0.0'']\<rparr>,
      ''other'' \<mapsto> \<lparr>ETag = ''W/2'', Content = refs []\<rparr>]"

definition requests_tags_of :: "string \<Rightarrow> event \<Rightarrow> bool" where
  "requests_tags_of i e =
     (case e of TagsFetch i' rq reply \<Rightarrow> i' = i | MetadataFetch i' t rq reply \<Rightarrow> False)"

text \<open>An Index Document written by an earlier run: demoapp with its release v1.0.0.\<close>

definition demo_version :: version_info where
  "demo_version = \<lparr>dependencies = JDict [], compatibility = NO_COMPATIBILITY_DATA\<rparr>"

definition demo_index :: index_doc where
  "demo_index =
     \<lparr>packages = [''demoapp'' \<mapsto>
        (package_header demo)\<lparr>versions := [''v1.0.0'' \<mapsto> demo_version],
                               name := Some (JStr ''Demo''),
                               description := Some (JStr ''d'')\<rparr>]\<rparr>"

text \<open>A provider that knows no repository.\<close>

definition missing_net :: provider where
  "missing_net n rq = Some \<lparr>status_code = 404, headers = [], json_body = None\<rparr>"

text \<open>The demo repository after its releases were replaced by a single tag with no metadata.json.\<close>

definition renamed_net :: provider where
  "renamed_net n rq =
     (if url rq = demo_tags_url then
        Some \<lparr>status_code = 200, headers = [(''ETag'', ''W/2'')], json_body = Some (refs [''v2.0.0''])\<rparr>
      else Some \<lparr>status_code = 404, headers = [], json_body = None\<rparr>)"

text \<open>The demo repository when its metadata.json also carries an icon and git coordinates.\<close>

definition rich_metadata :: json where
  "rich_metadata =
     JDict [(''name'', JStr ''Demo''), (''description'', JStr ''d''),
            (''dependencies'', JDict [(''packages'', JDict [])]),
            (''icon'', JStr ''new.png''),
            (''git'', JDict [(''provider'', JStr ''github.com''), (''owner'', JStr ''fork''),
                             (''repository'', JStr ''demo'')])]"

definition rich_net :: provider where
  "rich_net n rq =
     (if url rq = demo_tags_url then tag_list_reply rq
      else Some \<lparr>status_code = 200, headers = [], json_body = Some rich_metadata\<rparr>)"

text \<open>The state in which the loop over the tags of the demo package starts in a first run.\<close>

definition demo_start :: state where
  "demo_start = upsert_header demo (initial_state False None None)"

definition v100_request :: request where
  "v100_request =
     \<lparr>url = ''https://raw.githubusercontent.com/acme/demo/v1.0.0/metadata.json'', req_headers = []\<rparr>"

definition demo_response :: response where
  "demo_response = \<lparr>status_code = 200, headers = [], json_body = Some demo_metadata\<rparr>"

section \<open>Properties of the loops\<close>

subsection \<open>The version filter\<close>

lemma str_split_nonempty: "str_split sep s \<noteq> []"
  by (induction s) (simp_all split: list.splits)

lemma str_split_prefix:
  "sep \<notin> set a \<Longrightarrow> str_split sep (a @ sep # rest) = a # str_split sep rest"
proof (induction a)
  case Nil
  show ?case by simp
next
  case (Cons x xs)
  then have "x \<noteq> sep" "str_split sep (xs @ sep # rest) = xs # str_split sep rest" by auto
  then show ?case by simp
qed

lemma str_split_single: "sep \<notin> set a \<Longrightarrow> str_split sep a = [a]"
proof (induction a)
  case Nil
  show ?case by simp
next
  case (Cons x xs)
  then have "x \<noteq> sep" "str_split sep xs = [xs]" by auto
  then show ?case by simp
qed

lemma str_split_Cons:
  "str_split sep s = p # ps \<Longrightarrow>
     sep \<notin> set p \<and> (ps = [] \<and> s = p \<or> (\<exists>rest. s = p @ sep # rest \<and> str_split sep rest = ps))"
proof (induction s arbitrary: p ps)
  case Nil
  then show ?case by simp
next
  case (Cons x xs)
  show ?case
  proof (cases "x = sep")
    case True
    with Cons.prems have "p = []" "str_split sep xs = ps" by simp_all
    with True show ?thesis by simp
  next
    case False
    obtain q qs where qq: "str_split sep xs = q # qs"
      using str_split_nonempty[of sep xs] by (cases "str_split sep xs") simp_all
    with Cons.prems False have q: "p = x # q" "qs = ps" by simp_all
    from Cons.IH[OF qq] have
      i: "sep \<notin> set q" "qs = [] \<and> xs = q \<or> (\<exists>rest. xs = q @ sep # rest \<and> str_split sep rest = qs)"
      by simp_all
    from i(2) show ?thesis
    proof
      assume "qs = [] \<and> xs = q"
      with i(1) q False show ?thesis by simp
    next
      assume "\<exists>rest. xs = q @ sep # rest \<and> str_split sep rest = qs"
      then obtain rest where "xs = q @ sep # rest" "str_split sep rest = qs" by blast
      with q have "x # xs = p @ sep # rest \<and> str_split sep rest = ps" by simp
      with i(1) q False show ?thesis by auto
    qed
  qed
qed

lemma str_split_three:
  "str_split sep s = [a, b, c] =
     (s = a @ sep # b @ sep # c \<and> sep \<notin> set a \<and> sep \<notin> set b \<and> sep \<notin> set c)"
proof
  assume s: "str_split sep s = [a, b, c]"
  from str_split_Cons[OF s] obtain r1 where
    a: "sep \<notin> set a" "s = a @ sep # r1" "str_split sep r1 = [b, c]" by blast
  from str_split_Cons[OF a(3)] obtain r2 where
    b: "sep \<notin> set b" "r1 = b @ sep # r2" "str_split sep r2 = [c]" by blast
  from str_split_Cons[OF b(3)] str_split_nonempty[of sep] have c: "sep \<notin> set c" "r2 = c"
    by blast+
  from a b c show "s = a @ sep # b @ sep # c \<and> sep \<notin> set a \<and> sep \<notin> set b \<and> sep \<notin> set c"
    by simp
next
  assume h: "s = a @ sep # b @ sep # c \<and> sep \<notin> set a \<and> sep \<notin> set b \<and> sep \<notin> set c"
  then have "str_split sep s = a # str_split sep (b @ sep # c)"
    by (simp add: str_split_prefix)
  also have "str_split sep (b @ sep # c) = b # str_split sep c"
    using h by (simp add: str_split_prefix)
  also have "str_split sep c = [c]"
    using h by (simp add: str_split_single)
  finally show "str_split sep s = [a, b, c]" .
qed


lemma dot_not_digit: "\<not> is_digit CHR ''.''"
  by (simp add: is_digit_def)

lemma digits_no_dot: "digits d \<Longrightarrow> CHR ''.'' \<notin> set d"
  using dot_not_digit by (auto simp: digits_def list_all_iff)

lemma spec_is_valid_version_iff:
  "spec_is_valid_version tag =
     (\<exists>a b c. tag = CHR ''v'' # a @ CHR ''.'' # b @ CHR ''.'' # c \<and> digits a \<and> digits b \<and> digits c)"
proof
  assume v: "spec_is_valid_version tag"
  then obtain x rest where t: "tag = x # rest"
    by (cases tag) (simp_all add: spec_is_valid_version_def)
  with v have x: "x = CHR ''v''"
    and l: "length (str_split CHR ''.'' rest) = 3"
    and d: "list_all (\<lambda>p. p \<noteq> [] \<and> list_all is_digit p) (str_split CHR ''.'' rest)"
    by (simp_all add: spec_is_valid_version_def Let_def)
  from l obtain a r1 where r1: "str_split CHR ''.'' rest = a # r1" "length r1 = 2"
    by (cases "str_split CHR ''.'' rest") simp_all
  then obtain b r2 where r2: "r1 = b # r2" "length r2 = 1"
    by (cases r1) simp_all
  then obtain c where r3: "r2 = [c]"
    by (cases r2) simp_all
  from r1 r2 r3 have s: "str_split CHR ''.'' rest = [a, b, c]" by simp
  with d have "digits a" "digits b" "digits c" by (simp_all add: digits_def)
  moreover from s have "rest = a @ CHR ''.'' # b @ CHR ''.'' # c"
    using str_split_three[of "CHR ''.''" rest a b c] by blast
  ultimately show "\<exists>a b c. tag = CHR ''v'' # a @ CHR ''.'' # b @ CHR ''.'' # c \<and> digits a \<and> digits b \<and> digits c"
    using t x by blast
next
  assume "\<exists>a b c. tag = CHR ''v'' # a @ CHR ''.'' # b @ CHR ''.'' # c \<and> digits a \<and> digits b \<and> digits c"
  then obtain a b c where t: "tag = CHR ''v'' # a @ CHR ''.'' # b @ CHR ''.'' # c"
    and d: "digits a" "digits b" "digits c" by blast
  from d have "CHR ''.'' \<notin> set a" "CHR ''.'' \<notin> set b" "CHR ''.'' \<notin> set c"
    by (simp_all add: digits_no_dot)
  then have "str_split CHR ''.'' (a @ CHR ''.'' # b @ CHR ''.'' # c) = [a, b, c]"
    using str_split_three[of "CHR ''.''" "a @ CHR ''.'' # b @ CHR ''.'' # c" a b c] by blast
  with t d show "spec_is_valid_version tag"
    unfolding spec_is_valid_version_def digits_def by simp
qed


lemma rx_match_Lit:
  "rx_match (Lit c # rs) b s = (\<exists>xs. s = c # xs \<and> rx_match rs False xs)"
  by (cases s) auto

lemma rx_match_Digits1:
  "rx_match (Digits1 # rs) b s = (\<exists>d rest. s = d @ rest \<and> digits d \<and> rx_match rs False rest)"
proof (induction s arbitrary: b)
  case Nil
  show ?case by (simp add: digits_def)
next
  case (Cons x xs)
  show ?case
  proof
    assume "rx_match (Digits1 # rs) b (x # xs)"
    then have x: "is_digit x" and m: "rx_match (Digits1 # rs) False xs \<or> rx_match rs False xs"
      by simp_all
    from m show "\<exists>d rest. x # xs = d @ rest \<and> digits d \<and> rx_match rs False rest"
    proof
      assume "rx_match (Digits1 # rs) False xs"
      with Cons[of False] obtain d rest where "xs = d @ rest" "digits d" "rx_match rs False rest"
        by blast
      with x have "x # xs = (x # d) @ rest \<and> digits (x # d) \<and> rx_match rs False rest"
        by (simp add: digits_def)
      then show ?thesis by blast
    next
      assume "rx_match rs False xs"
      with x have "x # xs = [x] @ xs \<and> digits [x] \<and> rx_match rs False xs"
        by (simp add: digits_def)
      then show ?thesis by blast
    qed
  next
    assume "\<exists>d rest. x # xs = d @ rest \<and> digits d \<and> rx_match rs False rest"
    then obtain d rest where d: "x # xs = d @ rest" "digits d" "rx_match rs False rest"
      by blast
    from d(2) obtain y ys where dy: "d = y # ys" by (cases d) (auto simp: digits_def)
    with d have xy: "x = y" "xs = ys @ rest" "is_digit x" "list_all is_digit ys"
      by (auto simp: digits_def)
    show "rx_match (Digits1 # rs) b (x # xs)"
    proof (cases ys)
      case Nil
      with xy d(3) show ?thesis by simp
    next
      case (Cons z zs)
      with xy have "digits ys" by (simp add: digits_def)
      with xy(2) d(3) have "rx_match (Digits1 # rs) False xs"
        using Cons.IH[of False] by blast
      with xy(3) show ?thesis by simp
    qed
  qed
qed

lemma re_match_version:
  "re_match VERSION_REGEX tag =
     (\<exists>a b c rest. tag = CHR ''v'' # a @ CHR ''.'' # b @ CHR ''.'' # c @ rest \<and>
        digits a \<and> digits b \<and> digits c \<and> (rest = [] \<or> rest = [newline]))"
proof -
  have e: "rx_match [Eol] False rest = (rest = [] \<or> rest = [newline])" for rest
    by simp
  have c: "rx_match [Digits1, Eol] False s =
             (\<exists>c rest. s = c @ rest \<and> digits c \<and> (rest = [] \<or> rest = [newline]))" for s
    unfolding rx_match_Digits1 e ..
  have b: "rx_match [Digits1, Lit CHR ''.'', Digits1, Eol] False s =
             (\<exists>b c rest. s = b @ CHR ''.'' # c @ rest \<and> digits b \<and> digits c \<and>
                (rest = [] \<or> rest = [newline]))" for s
    unfolding rx_match_Digits1[of "[Lit CHR ''.'', Digits1, Eol]"] rx_match_Lit c by blast
  have a: "rx_match [Digits1, Lit CHR ''.'', Digits1, Lit CHR ''.'', Digits1, Eol] False s =
             (\<exists>a b c rest. s = a @ CHR ''.'' # b @ CHR ''.'' # c @ rest \<and>
                digits a \<and> digits b \<and> digits c \<and> (rest = [] \<or> rest = [newline]))" for s
    unfolding rx_match_Digits1[of "[Lit CHR ''.'', Digits1, Lit CHR ''.'', Digits1, Eol]"]
      rx_match_Lit b by blast
  show ?thesis
    unfolding re_match_def VERSION_REGEX_def rx_match.simps(2) rx_match_Lit a by blast
qed

subsection \<open>The steps of a run\<close>

lemma store_package_simps [simp]:
  "trace (store_package p r s) = trace s"
  "cache (store_package p r s) = cache s"
  "cache_file (store_package p r s) = cache_file s"
  "index_file (store_package p r s) = index_file s"
  "hits (store_package p r s) = hits s"
  "misses (store_package p r s) = misses s"
  "num_packages (store_package p r s) = num_packages s"
  "packages (index (store_package p r s)) = (packages (index s))(pkg_id p \<mapsto> r)"
  by (simp_all add: store_package_def)

lemma record_version_frame:
  "trace (final (record_version p tag md r s)) = trace s \<and>
   cache (final (record_version p tag md r s)) = cache s \<and>
   cache_file (final (record_version p tag md r s)) = cache_file s \<and>
   index_file (final (record_version p tag md r s)) = index_file s"
  by (simp add: record_version_def Let_def split: sum.splits bool.splits)

lemma record_version_index:
  "packages (index (final (record_version p tag md r s))) = packages (index s) \<or>
   (\<exists>r'. packages (index (final (record_version p tag md r s))) =
            (packages (index s))(pkg_id p \<mapsto> r') \<and> same_header tag r r')"
  by (auto simp add: record_version_def Let_def same_header_def split: sum.splits bool.splits)

lemma record_version_index':
  assumes "packages (index s2) = P"
      and "\<forall>r'. packages (index (final (record_version p tag md r s2))) = P(pkg_id p \<mapsto> r')
             \<longrightarrow> \<not> same_header tag r r'"
  shows "packages (index (final (record_version p tag md r s2))) = P"
  using record_version_index[of p tag md r s2] assms by auto

lemma process_tag_frame:
  "cache (final (process_tag net p tag s)) = cache s \<and>
   cache_file (final (process_tag net p tag s)) = cache_file s \<and>
   index_file (final (process_tag net p tag s)) = index_file s"
  by (simp add: process_tag_def Let_def record_version_frame
           split: sum.splits option.splits)

lemma process_tag_effect:
  "(trace (final (process_tag net p tag s)) = trace s \<and>
    index (final (process_tag net p tag s)) = index s)
   \<or> (\<exists>rq reply r.
         trace (final (process_tag net p tag s)) =
           trace s @ [MetadataFetch (pkg_id p) tag rq reply] \<and>
         re_match VERSION_REGEX tag \<and>
         packages (index s) (pkg_id p) = Some r \<and> versions r tag = None \<and>
         (packages (index (final (process_tag net p tag s))) = packages (index s) \<or>
          \<not> skipped_reply reply \<and>
          (\<exists>r'. packages (index (final (process_tag net p tag s))) =
                  (packages (index s))(pkg_id p \<mapsto> r') \<and> same_header tag r r')))"
proof -
  have rv: "\<And>md r s. trace (final (record_version p tag md r s)) = trace s"
    using record_version_frame by blast
  show ?thesis
    apply (simp add: process_tag_def Let_def rv skipped_reply_def
           split: sum.splits option.splits)
    apply (auto simp: rv intro!: record_version_index')
    done
qed

lemma kept_refl [simp]: "kept r r"
  by (simp add: kept_def)

lemma kept_trans: "kept a b \<Longrightarrow> kept b c \<Longrightarrow> kept a c"
  by (simp add: kept_def)

lemma same_header_kept: "versions r tag = None \<Longrightarrow> same_header tag r r' \<Longrightarrow> kept r r'"
  unfolding kept_def same_header_def by (metis option.distinct(1))

lemma progress_refl [simp]: "progress s s"
  by (simp add: progress_def)

lemma version_of_kept:
  assumes "\<forall>i r. packages d i = Some r \<longrightarrow> (\<exists>r'. packages d' i = Some r' \<and> kept r r')"
      and "version_of d' i t = None"
  shows "version_of d i t = None"
proof (cases "packages d i")
  case None
  then show ?thesis by (simp add: version_of_def)
next
  case (Some r)
  with assms(1) obtain r' where r': "packages d' i = Some r'" "kept r r'" by blast
  with assms(2) have "versions r' t = None" by (simp add: version_of_def)
  with r'(2) have "versions r t = None" by (cases "versions r t") (auto simp: kept_def)
  with Some show ?thesis by (simp add: version_of_def)
qed

lemma fresh_fetch_kept:
  assumes "\<forall>i r. packages d i = Some r \<longrightarrow> (\<exists>r'. packages d' i = Some r' \<and> kept r r')"
      and "fresh_fetch d' e"
  shows "fresh_fetch d e"
  using assms version_of_kept[OF assms(1)]
  by (cases e) (auto simp: fresh_fetch_def)

lemma progress_trans:
  assumes "progress a b" and "progress b c"
  shows "progress a c"
proof -
  from assms(1) obtain es1 where
    a1: "index_file b = index_file a"
    and a2: "\<forall>i r. packages (index a) i = Some r \<longrightarrow> (\<exists>r'. packages (index b) i = Some r' \<and> kept r r')"
    and a3: "trace b = trace a @ es1" "list_all (fresh_fetch (index a)) es1"
    unfolding progress_def by blast
  from assms(2) obtain es2 where
    b1: "index_file c = index_file b"
    and b2: "\<forall>i r. packages (index b) i = Some r \<longrightarrow> (\<exists>r'. packages (index c) i = Some r' \<and> kept r r')"
    and b3: "trace c = trace b @ es2" "list_all (fresh_fetch (index b)) es2"
    unfolding progress_def by blast
  have k: "\<forall>i r. packages (index a) i = Some r \<longrightarrow> (\<exists>r'. packages (index c) i = Some r' \<and> kept r r')"
    using a2 b2 kept_trans by blast
  have "list_all (fresh_fetch (index a)) es2"
    using b3(2) fresh_fetch_kept[OF a2] by (simp add: list_all_iff)
  with a3 b3 have "trace c = trace a @ (es1 @ es2) \<and> list_all (fresh_fetch (index a)) (es1 @ es2)"
    by simp
  with a1 b1 k show ?thesis
    unfolding progress_def by metis
qed

lemma process_tag_progress: "progress s (final (process_tag net p tag s))"
proof -
  let ?s' = "final (process_tag net p tag s)"
  have f: "index_file ?s' = index_file s"
    using process_tag_frame by blast
  from process_tag_effect[of net p tag s]
  show ?thesis
  proof (elim disjE exE conjE)
    assume "trace ?s' = trace s" "index ?s' = index s"
    with f show ?thesis by (simp add: progress_def)
  next
    fix rq reply r
    assume t: "trace ?s' = trace s @ [MetadataFetch (pkg_id p) tag rq reply]"
      and v: "re_match VERSION_REGEX tag" "packages (index s) (pkg_id p) = Some r" "versions r tag = None"
      and i: "packages (index ?s') = packages (index s)"
    have "fresh_fetch (index s) (MetadataFetch (pkg_id p) tag rq reply)"
      using v by (simp add: fresh_fetch_def version_of_def)
    with f t i show ?thesis by (simp add: progress_def)
  next
    fix rq reply r r'
    assume t: "trace ?s' = trace s @ [MetadataFetch (pkg_id p) tag rq reply]"
      and v: "re_match VERSION_REGEX tag" "packages (index s) (pkg_id p) = Some r" "versions r tag = None"
      and i: "packages (index ?s') = (packages (index s))(pkg_id p \<mapsto> r')" "same_header tag r r'"
    have "fresh_fetch (index s) (MetadataFetch (pkg_id p) tag rq reply)"
      using v by (simp add: fresh_fetch_def version_of_def)
    moreover have "kept r r'"
      using same_header_kept v(3) i(2) by blast
    ultimately show ?thesis
      using f t i(1) v(2) by (simp add: progress_def)
  qed
qed

lemma tags_loop_progress: "progress s (final (tags_loop net p tags s))"
proof (induction tags arbitrary: s)
  case Nil
  show ?case by simp
next
  case (Cons t ts)
  show ?case
  proof (cases "process_tag net p t s")
    case (Inl a)
    with process_tag_progress[of s net p t] show ?thesis by simp
  next
    case (Inr s1)
    with process_tag_progress[of s net p t] have "progress s s1" by simp
    with Cons[of s1] Inr show ?thesis by (simp add: progress_trans)
  qed
qed

lemma update_cache_frame:
  "update_cache no_cache p resp s = Inl (a, s') \<Longrightarrow>
     index s' = index s \<and> index_file s' = index_file s \<and> trace s' = trace s"
  "update_cache no_cache p resp s = Inr s' \<Longrightarrow>
     index s' = index s \<and> index_file s' = index_file s \<and> trace s' = trace s"
  by (auto simp: update_cache_def Let_def split: if_splits option.splits)

lemma read_tags_Inl:
  assumes "read_tags no_cache p resp s = Inl (a, s')"
  shows "index s' = index s \<and> index_file s' = index_file s \<and> trace s' = trace s \<and>
         (status_code resp = 404 \<longrightarrow> a = SysExit 2)"
  using assms
  by (auto simp: read_tags_def Let_def quota_exhausted_def
           split: sum.splits if_splits option.splits bool.splits
           dest!: update_cache_frame)

lemma read_tags_Inr:
  assumes "read_tags no_cache p resp s = Inr (tags, s')"
  shows "index s' = index s \<and> index_file s' = index_file s \<and> trace s' = trace s \<and>
         status_code resp \<noteq> 404 \<and>
         map_option (\<lambda>c. get_tags (Content c)) (cache s' (pkg_id p)) = Some (Inr tags)"
  using assms
  by (auto simp: read_tags_def Let_def
           split: sum.splits if_splits option.splits bool.splits
           dest!: update_cache_frame)

lemma refresh_tags_Inl:
  assumes "refresh_tags no_cache net p s = Inl (a, s')"
  shows "index s' = index s \<and> index_file s' = index_file s \<and>
         (trace s' = trace s \<or>
          (\<exists>rq reply. trace s' = trace s @ [TagsFetch (pkg_id p) rq reply] \<and>
             (tags_not_found (TagsFetch (pkg_id p) rq reply) \<longrightarrow> a = SysExit 2)))"
proof (cases "tags_url p")
  case (Inl e)
  with assms show ?thesis by (simp add: refresh_tags_def)
next
  case (Inr u)
  show ?thesis
  proof (cases "has_scheme u")
    case False
    with Inr assms show ?thesis by (simp add: refresh_tags_def)
  next
    case True
    define rq where "rq = \<lparr>url = u,
                req_headers = (case cache s (pkg_id p) of
                                 None \<Rightarrow> []
                               | Some c \<Rightarrow> [(''If-None-Match'', ETag c)])\<rparr>"
    define s1 where "s1 = s\<lparr>trace := trace s @ [TagsFetch (pkg_id p) rq (net (length (trace s)) rq)]\<rparr>"
    show ?thesis
    proof (cases "net (length (trace s)) rq")
      case None
      with Inr True assms have "s' = s1"
        by (simp add: refresh_tags_def Let_def rq_def s1_def)
      with None show ?thesis
        by (auto simp: s1_def tags_not_found_def)
    next
      case (Some resp)
      with Inr True assms have "read_tags no_cache p resp s1 = Inl (a, s')"
        by (simp add: refresh_tags_def Let_def rq_def s1_def)
      from read_tags_Inl[OF this] Some show ?thesis
        by (auto simp: s1_def tags_not_found_def)
    qed
  qed
qed

lemma refresh_tags_Inr:
  assumes "refresh_tags no_cache net p s = Inr (tags, s')"
  shows "index s' = index s \<and> index_file s' = index_file s \<and>
         (\<exists>rq resp. trace s' = trace s @ [TagsFetch (pkg_id p) rq (Some resp)] \<and>
             status_code resp \<noteq> 404) \<and>
         map_option (\<lambda>c. get_tags (Content c)) (cache s' (pkg_id p)) = Some (Inr tags)"
proof (cases "tags_url p")
  case (Inl e)
  with assms show ?thesis by (simp add: refresh_tags_def)
next
  case (Inr u)
  show ?thesis
  proof (cases "has_scheme u")
    case False
    with Inr assms show ?thesis by (simp add: refresh_tags_def)
  next
    case True
    define rq where "rq = \<lparr>url = u,
                req_headers = (case cache s (pkg_id p) of
                                 None \<Rightarrow> []
                               | Some c \<Rightarrow> [(''If-None-Match'', ETag c)])\<rparr>"
    define s1 where "s1 = s\<lparr>trace := trace s @ [TagsFetch (pkg_id p) rq (net (length (trace s)) rq)]\<rparr>"
    show ?thesis
    proof (cases "net (length (trace s)) rq")
      case None
      with Inr True assms show ?thesis
        by (simp add: refresh_tags_def Let_def rq_def s1_def)
    next
      case (Some resp)
      with Inr True assms have "read_tags no_cache p resp s1 = Inr (tags, s')"
        by (simp add: refresh_tags_def Let_def rq_def s1_def)
      from read_tags_Inr[OF this] Some show ?thesis
        by (auto simp: s1_def)
    qed
  qed
qed

lemma upsert_header_simps [simp]:
  "trace (upsert_header p s) = trace s"
  "cache (upsert_header p s) = cache s"
  "cache_file (upsert_header p s) = cache_file s"
  "index_file (upsert_header p s) = index_file s"
  "hits (upsert_header p s) = hits s"
  "misses (upsert_header p s) = misses s"
  "num_packages (upsert_header p s) = num_packages s"
  by (simp_all add: upsert_header_def)

lemma upsert_header_packages:
  "packages (index (upsert_header p s)) =
     (case packages (index s) (pkg_id p) of
        None \<Rightarrow> (packages (index s))(pkg_id p \<mapsto> package_header p)
      | Some r \<Rightarrow> packages (index s))"
  by (simp add: upsert_header_def split: option.splits)

lemma version_of_upsert_header [simp]:
  "version_of (index (upsert_header p s)) i t = version_of (index s) i t"
  by (simp add: version_of_def upsert_header_packages package_header_def split: option.splits)

lemma upsert_header_progress: "progress s (upsert_header p s)"
  by (auto simp: progress_def upsert_header_packages split: option.splits)

lemma progress_same_index:
  assumes "index s' = index s" "index_file s' = index_file s" "trace s' = trace s @ [TagsFetch i rq reply]"
  shows "progress s s'"
  using assms by (simp add: progress_def fresh_fetch_def)

lemma progress_num_packages: "progress s (s\<lparr>num_packages := n\<rparr>)"
  by (simp add: progress_def)

lemma process_package_progress: "progress s (final (process_package no_cache net p s))"
proof (cases "refresh_tags no_cache net p s")
  case (Inl x)
  obtain a s' where x: "x = (a, s')" by (cases x)
  from refresh_tags_Inl[OF Inl[unfolded x]] have "progress s s'"
    by (auto simp: progress_def fresh_fetch_def)
  with Inl x show ?thesis by (simp add: process_package_def)
next
  case (Inr y)
  obtain tags s3 where y: "y = (tags, s3)" by (cases y)
  from refresh_tags_Inr[OF Inr[unfolded y]] have "progress s s3"
    by (auto simp: progress_def fresh_fetch_def)
  then have p4: "progress s (upsert_header p s3)"
    using upsert_header_progress progress_trans by blast
  have p5: "progress s (final (tags_loop net p tags (upsert_header p s3)))"
    using p4 tags_loop_progress progress_trans by blast
  show ?thesis
  proof (cases "tags_loop net p tags (upsert_header p s3)")
    case (Inl a)
    with p5 Inr y show ?thesis by (simp add: process_package_def)
  next
    case (Inr s5)
    with p5 have "progress s s5" by simp
    then have "progress s (s5\<lparr>num_packages := num_packages s5 + 1\<rparr>)"
      using progress_num_packages progress_trans by blast
    with Inr \<open>refresh_tags no_cache net p s = Inr y\<close> y show ?thesis
      by (simp add: process_package_def)
  qed
qed

lemma packages_loop_progress: "progress s (final (packages_loop no_cache net ps s))"
proof (induction ps arbitrary: s)
  case Nil
  show ?case by simp
next
  case (Cons p ps)
  show ?case
  proof (cases "process_package no_cache net p s")
    case (Inl a)
    with process_package_progress[of s no_cache net p] show ?thesis by simp
  next
    case (Inr s1)
    with process_package_progress[of s no_cache net p] have "progress s s1" by simp
    with Cons[of s1] Inr show ?thesis by (simp add: progress_trans)
  qed
qed

lemma main_final:
  "trace (final (main no_cache pkgs net cfile ifile)) =
     trace (final (packages_loop no_cache net pkgs (initial_state no_cache cfile ifile)))"
  "cache_file (final (main no_cache pkgs net cfile ifile)) =
     cache_file (final (packages_loop no_cache net pkgs (initial_state no_cache cfile ifile)))"
  "index (final (main no_cache pkgs net cfile ifile)) =
     index (final (packages_loop no_cache net pkgs (initial_state no_cache cfile ifile)))"
  by (simp_all add: main_def split: sum.splits)

lemma main_index_file:
  "index_file (final (main no_cache pkgs net cfile ifile)) =
     (case main no_cache pkgs net cfile ifile of
        Inl a \<Rightarrow> ifile
      | Inr s \<Rightarrow> Some (index (final (packages_loop no_cache net pkgs (initial_state no_cache cfile ifile)))))"
proof -
  have "index_file (final (packages_loop no_cache net pkgs (initial_state no_cache cfile ifile))) = ifile"
    using packages_loop_progress[of "initial_state no_cache cfile ifile" no_cache net pkgs]
    by (simp add: progress_def initial_state_def)
  then show ?thesis
    by (auto simp: main_def split: sum.splits)
qed

lemma progress_version:
  assumes "progress s s'" and "version_of (index s) i t = Some v"
  shows "version_of (index s') i t = Some v \<and>
         (\<exists>es. trace s' = trace s @ es \<and> \<not> list_ex (fetches_metadata i t) es)"
proof -
  from assms(1) obtain es where
    k: "\<forall>i r. packages (index s) i = Some r \<longrightarrow> (\<exists>r'. packages (index s') i = Some r' \<and> kept r r')"
    and t: "trace s' = trace s @ es" "list_all (fresh_fetch (index s)) es"
    unfolding progress_def by blast
  from assms(2) obtain r where r: "packages (index s) i = Some r" "versions r t = Some v"
    by (auto simp: version_of_def split: option.splits)
  with k obtain r' where "packages (index s') i = Some r'" "kept r r'" by blast
  with r(2) have v': "version_of (index s') i t = Some v"
    by (simp add: version_of_def kept_def)
  have "\<not> list_ex (fetches_metadata i t) es"
  proof
    assume "list_ex (fetches_metadata i t) es"
    then obtain e where e: "e \<in> set es" "fetches_metadata i t e"
      by (auto simp: list_ex_iff)
    with t(2) have "fresh_fetch (index s) e" by (simp add: list_all_iff)
    with e(2) assms(2) show False
      by (cases e) (auto simp: fetches_metadata_def fresh_fetch_def)
  qed
  with v' t(1) show ?thesis by blast
qed

lemma process_tag_trace:
  "\<exists>es. trace (final (process_tag net p tag s)) = trace s @ es \<and> list_all is_metadata_fetch es"
  using process_tag_effect[of net p tag s]
  by (auto simp: is_metadata_fetch_def)

lemma tags_loop_trace:
  "\<exists>es. trace (final (tags_loop net p tags s)) = trace s @ es \<and> list_all is_metadata_fetch es"
proof (induction tags arbitrary: s)
  case Nil
  show ?case by simp
next
  case (Cons t ts)
  from process_tag_trace[of net p t s] obtain es1 where
    e1: "trace (final (process_tag net p t s)) = trace s @ es1" "list_all is_metadata_fetch es1"
    by blast
  show ?case
  proof (cases "process_tag net p t s")
    case (Inl a)
    with e1 show ?thesis by auto
  next
    case (Inr s1)
    from Cons[of s1] obtain es2 where
      e2: "trace (final (tags_loop net p ts s1)) = trace s1 @ es2" "list_all is_metadata_fetch es2"
      by blast
    from e1 Inr have "trace s1 = trace s @ es1" by simp
    with e2 e1(2) Inr have "trace (final (tags_loop net p (t # ts) s)) = trace s @ (es1 @ es2) \<and>
        list_all is_metadata_fetch (es1 @ es2)"
      by simp
    then show ?thesis by blast
  qed
qed

lemma metadata_not_tags_not_found: "is_metadata_fetch e \<Longrightarrow> \<not> tags_not_found e"
  by (cases e) (simp_all add: is_metadata_fetch_def tags_not_found_def)

lemma clean_append [simp]: "clean (xs @ ys) = (clean xs \<and> clean ys)"
  by (auto simp: clean_def list_ex_iff)

lemma clean_metadata: "list_all is_metadata_fetch es \<Longrightarrow> clean es"
  using metadata_not_tags_not_found by (auto simp: clean_def list_ex_iff list_all_iff)

lemma process_package_not_found:
  assumes "clean (trace s)"
  shows "not_found_last (process_package no_cache net p s)"
proof (cases "refresh_tags no_cache net p s")
  case (Inl x)
  obtain a s' where x: "x = (a, s')" by (cases x)
  from refresh_tags_Inl[OF Inl[unfolded x]] assms
  have "clean (butlast (trace s')) \<and> (\<not> clean (trace s') \<longrightarrow> a = SysExit 2)"
    by (auto simp: clean_def list_ex_iff dest: in_set_butlastD)
  with Inl x show ?thesis by (simp add: process_package_def not_found_last_def)
next
  case (Inr y)
  obtain tags s3 where y: "y = (tags, s3)" by (cases y)
  from refresh_tags_Inr[OF Inr[unfolded y]] assms have c3: "clean (trace s3)"
    by (auto simp: clean_def tags_not_found_def)
  from tags_loop_trace[of net p tags "upsert_header p s3"] c3 clean_metadata
  have c5: "clean (trace (final (tags_loop net p tags (upsert_header p s3))))"
    by auto
  show ?thesis
  proof (cases "tags_loop net p tags (upsert_header p s3)")
    case (Inl b)
    obtain a s' where b: "b = (a, s')" by (cases b)
    with Inl c5 have "clean (trace s')" by simp
    then have "clean (butlast (trace s'))"
      by (auto simp: clean_def list_ex_iff dest: in_set_butlastD)
    with \<open>clean (trace s')\<close> Inl b Inr y show ?thesis
      by (simp add: process_package_def not_found_last_def)
  next
    case (Inr s5)
    with c5 \<open>refresh_tags no_cache net p s = Inr y\<close> y show ?thesis
      by (simp add: process_package_def not_found_last_def)
  qed
qed

lemma packages_loop_not_found:
  assumes "clean (trace s)"
  shows "not_found_last (packages_loop no_cache net ps s)"
  using assms
proof (induction ps arbitrary: s)
  case Nil
  then show ?case by (simp add: not_found_last_def)
next
  case (Cons p ps)
  from process_package_not_found[OF Cons.prems, of no_cache net p]
  show ?case
  proof (cases "process_package no_cache net p s")
    case (Inl a)
    with process_package_not_found[OF Cons.prems, of no_cache net p] show ?thesis by simp
  next
    case (Inr s1)
    with process_package_not_found[OF Cons.prems, of no_cache net p]
    have "clean (trace s1)" by (simp add: not_found_last_def)
    from Cons.IH[OF this] Inr show ?thesis by simp
  qed
qed

lemma main_not_found: "not_found_last (main no_cache pkgs net cfile ifile)"
proof -
  have "clean (trace (initial_state no_cache cfile ifile))"
    by (simp add: clean_def initial_state_def)
  from packages_loop_not_found[OF this, of no_cache net pkgs]
  show ?thesis
    by (auto simp: main_def not_found_last_def split: sum.splits)
qed

lemma process_tag_other:
  "i \<noteq> pkg_id p \<Longrightarrow> packages (index (final (process_tag net p tag s))) i = packages (index s) i"
  using process_tag_effect[of net p tag s] by auto

lemma process_tag_skipped:
  assumes "list_all (skipped_for (pkg_id p)) (trace (final (process_tag net p tag s)))"
  shows "packages (index (final (process_tag net p tag s))) = packages (index s)"
  using process_tag_effect[of net p tag s] assms
  by (auto simp: skipped_for_def)

lemma tags_loop_other:
  "i \<noteq> pkg_id p \<Longrightarrow> packages (index (final (tags_loop net p tags s))) i = packages (index s) i"
proof (induction tags arbitrary: s)
  case Nil
  show ?case by simp
next
  case (Cons t ts)
  show ?case
  proof (cases "process_tag net p t s")
    case (Inl a)
    with process_tag_other[OF Cons.prems, of net t s] show ?thesis by simp
  next
    case (Inr s1)
    with process_tag_other[OF Cons.prems, of net t s] Cons.IH[OF Cons.prems, of s1]
    show ?thesis by simp
  qed
qed

lemma tags_loop_skipped:
  assumes "list_all (skipped_for (pkg_id p)) (trace (final (tags_loop net p tags s)))"
  shows "packages (index (final (tags_loop net p tags s))) = packages (index s)"
  using assms
proof (induction tags arbitrary: s)
  case Nil
  show ?case by simp
next
  case (Cons t ts)
  show ?case
  proof (cases "process_tag net p t s")
    case (Inl a)
    with Cons.prems process_tag_skipped[of p net t s] show ?thesis by simp
  next
    case (Inr s1)
    with Cons.prems have l: "list_all (skipped_for (pkg_id p)) (trace (final (tags_loop net p ts s1)))"
      by simp
    from tags_loop_trace[of net p ts s1] l have "list_all (skipped_for (pkg_id p)) (trace s1)"
      by auto
    with Inr process_tag_skipped[of p net t s] have "packages (index s1) = packages (index s)"
      by simp
    with Cons.IH[OF l] Inr show ?thesis by simp
  qed
qed

lemma process_package_other:
  assumes "i \<noteq> pkg_id p"
  shows "packages (index (final (process_package no_cache net p s))) i = packages (index s) i"
proof (cases "refresh_tags no_cache net p s")
  case (Inl x)
  obtain a s' where x: "x = (a, s')" by (cases x)
  from refresh_tags_Inl[OF Inl[unfolded x]] Inl x show ?thesis
    by (simp add: process_package_def)
next
  case (Inr y)
  obtain tags s3 where y: "y = (tags, s3)" by (cases y)
  from refresh_tags_Inr[OF Inr[unfolded y]] have "index s3 = index s" by simp
  with assms have "packages (index (upsert_header p s3)) i = packages (index s) i"
    by (simp add: upsert_header_packages split: option.splits)
  with tags_loop_other[OF assms, of net tags "upsert_header p s3"]
  have "packages (index (final (tags_loop net p tags (upsert_header p s3)))) i = packages (index s) i"
    by simp
  with Inr y show ?thesis
    by (cases "tags_loop net p tags (upsert_header p s3)") (auto simp: process_package_def)
qed

lemma process_package_skipped:
  assumes "process_package no_cache net p s = Inr s'"
      and "list_all (skipped_for (pkg_id p)) (trace s')"
  shows "packages (index s') (pkg_id p) =
           Some (case packages (index s) (pkg_id p) of None \<Rightarrow> package_header p | Some r \<Rightarrow> r)"
proof (cases "refresh_tags no_cache net p s")
  case (Inl x)
  with assms(1) show ?thesis by (simp add: process_package_def)
next
  case (Inr y)
  obtain tags s3 where y: "y = (tags, s3)" by (cases y)
  from refresh_tags_Inr[OF Inr[unfolded y]] have i3: "index s3 = index s" by simp
  from assms(1) Inr y obtain s5 where
    s5: "tags_loop net p tags (upsert_header p s3) = Inr s5"
    and s': "s' = s5\<lparr>num_packages := num_packages s5 + 1\<rparr>"
    by (auto simp: process_package_def split: sum.splits)
  from assms(2) s' s5
  have "list_all (skipped_for (pkg_id p)) (trace (final (tags_loop net p tags (upsert_header p s3))))"
    by simp
  from tags_loop_skipped[OF this] s5
  have "packages (index s5) = packages (index (upsert_header p s3))" by simp
  with s' i3 show ?thesis
    by (simp add: upsert_header_packages split: option.splits)
qed

lemma packages_loop_trace:
  "\<exists>es. trace (final (packages_loop no_cache net ps s)) = trace s @ es"
  using packages_loop_progress[of s no_cache net ps] by (auto simp: progress_def)

lemma packages_loop_skipped:
  assumes "packages_loop no_cache net ps s = Inr s'"
      and "list_all (skipped_for i) (trace s')"
  shows "packages (index s') i =
           (case packages (index s) i of
              Some r \<Rightarrow> Some r
            | None \<Rightarrow> map_option package_header (find (\<lambda>q. pkg_id q = i) ps))"
  using assms
proof (induction ps arbitrary: s)
  case Nil
  then show ?case by (simp split: option.splits)
next
  case (Cons p ps)
  from Cons.prems(1) obtain s1 where
    s1: "process_package no_cache net p s = Inr s1"
    and l: "packages_loop no_cache net ps s1 = Inr s'"
    by (auto split: sum.splits)
  from packages_loop_trace[of no_cache net ps s1] l Cons.prems(2)
  have t1: "list_all (skipped_for i) (trace s1)" by auto
  note ih = Cons.IH[OF l Cons.prems(2)]
  show ?case
  proof (cases "pkg_id p = i")
    case True
    with process_package_skipped[OF s1] t1
    have "packages (index s1) i =
            Some (case packages (index s) i of None \<Rightarrow> package_header p | Some r \<Rightarrow> r)"
      by simp
    with ih True show ?thesis by (simp split: option.splits)
  next
    case False
    with process_package_other[of i p no_cache net s] s1
    have "packages (index s1) i = packages (index s) i" by simp
    with ih False show ?thesis by (simp split: option.splits)
  qed
qed

lemma completedE:
  assumes "completed r"
  obtains s where "r = Inr s"
  using assms by (cases r) (auto simp: completed_def)

lemma process_tag_fetched:
  assumes "completed (process_tag net p tag s)"
      and "trace (final (process_tag net p tag s)) = trace s @ [MetadataFetch (pkg_id p) tag rq (Some resp)]"
      and "status_code resp = 200" and "json_body resp = Some md" and "py_len md \<noteq> Inr 0"
  shows "\<exists>r. packages (index s) (pkg_id p) = Some r \<and> versions r tag = None \<and>
           process_tag net p tag s =
             record_version p tag md r
               (s\<lparr>misses := misses s + 1,
                  trace := trace s @ [MetadataFetch (pkg_id p) tag rq (Some resp)]\<rparr>)"
  using assms
  by (auto simp: process_tag_def Let_def record_version_frame completed_def
           split: if_splits option.splits sum.splits)

lemma record_version_completed:
  assumes "completed (record_version p tag md r s)"
  shows "\<exists>r'. packages (index (final (record_version p tag md r s))) =
                (packages (index s))(pkg_id p \<mapsto> r') \<and>
              recorded_from md tag r r' \<and>
              (no_compose_entry md \<longrightarrow>
                 map_option compatibility (versions r' tag) = Some NO_COMPATIBILITY_DATA)"
proof (cases md)
  case (JDict kvs)
  with assms show ?thesis
    by (auto simp: record_version_def completed_def Let_def no_compose_entry_def
                   recorded_from_def metadata_dependencies_def
             split: sum.splits bool.splits option.splits json.splits)
qed (use assms in \<open>simp_all add: record_version_def completed_def\<close>)














lemma idle_Nil [simp]: "idle s [] s"
  by (simp add: idle_def expected_hits_def)



section \<open>The claims\<close>

lemmas run_defs =
  main_def initial_state_def process_package_def refresh_tags_def read_tags_def
  process_tag_def record_version_def update_cache_def quota_exhausted_def upsert_header_def
  store_package_def package_header_def tags_url_def metadata_url_def has_scheme_def
  tag_of_ref_def re_match_def VERSION_REGEX_def is_digit_def newline_def Let_def

subsection \<open>C6: the version filter\<close>

text \<open>
  C6 says that the filter accepts a tag exactly when it is the character v followed by
  three dot-separated decimal integers and nothing else. The filter of line 129 accepts
  v1.2.3 followed by a newline: in Python the dollar sign of the pattern also matches
  just before a newline that ends the string. The tag is not of the form the claim
  describes.
\<close>

theorem version_filter_accepts_trailing_newline:
  "re_match VERSION_REGEX (''v1.2.3'' @ [newline]) \<and>
   \<not> spec_is_valid_version (''v1.2.3'' @ [newline])"
  by (simp add: re_match_def VERSION_REGEX_def is_digit_def newline_def
        spec_is_valid_version_def)

text \<open>The four examples of the specification come out as it says.\<close>

lemma version_filter_examples:
  "re_match VERSION_REGEX ''v1.2.3''"
  "\<not> re_match VERSION_REGEX ''v1.2''"
  "\<not> re_match VERSION_REGEX ''1.2.3''"
  "\<not> re_match VERSION_REGEX ''v1.2.3-beta''"
  by (simp_all add: re_match_def VERSION_REGEX_def is_digit_def newline_def)

text \<open>
  The trailing newline is the only difference: the filter accepts exactly the tags of
  the form the claim describes and those tags followed by one newline.
\<close>

lemma version_filter_characterised:
  "re_match VERSION_REGEX tag =
     (spec_is_valid_version tag \<or> (\<exists>t. tag = t @ [newline] \<and> spec_is_valid_version t))"
proof
  assume "re_match VERSION_REGEX tag"
  then obtain a b c rest where
    t: "tag = CHR ''v'' # a @ CHR ''.'' # b @ CHR ''.'' # c @ rest"
    and d: "digits a" "digits b" "digits c" and r: "rest = [] \<or> rest = [newline]"
    unfolding re_match_version by blast
  from d have v: "spec_is_valid_version (CHR ''v'' # a @ CHR ''.'' # b @ CHR ''.'' # c)"
    unfolding spec_is_valid_version_iff by blast
  from r show "spec_is_valid_version tag \<or> (\<exists>t. tag = t @ [newline] \<and> spec_is_valid_version t)"
  proof
    assume "rest = []"
    with t v show ?thesis by simp
  next
    assume "rest = [newline]"
    with t have "tag = (CHR ''v'' # a @ CHR ''.'' # b @ CHR ''.'' # c) @ [newline]" by simp
    with v show ?thesis by blast
  qed
next
  assume "spec_is_valid_version tag \<or> (\<exists>t. tag = t @ [newline] \<and> spec_is_valid_version t)"
  then show "re_match VERSION_REGEX tag"
  proof
    assume "spec_is_valid_version tag"
    then obtain a b c where "tag = CHR ''v'' # a @ CHR ''.'' # b @ CHR ''.'' # c"
      "digits a" "digits b" "digits c"
      unfolding spec_is_valid_version_iff by blast
    then have "tag = CHR ''v'' # a @ CHR ''.'' # b @ CHR ''.'' # c @ [] \<and>
               digits a \<and> digits b \<and> digits c" by simp
    then show ?thesis unfolding re_match_version by blast
  next
    assume "\<exists>t. tag = t @ [newline] \<and> spec_is_valid_version t"
    then obtain t where tt: "tag = t @ [newline]" "spec_is_valid_version t" by blast
    then obtain a b c where "t = CHR ''v'' # a @ CHR ''.'' # b @ CHR ''.'' # c"
      "digits a" "digits b" "digits c"
      unfolding spec_is_valid_version_iff by blast
    with tt have "tag = CHR ''v'' # a @ CHR ''.'' # b @ CHR ''.'' # c @ [newline] \<and>
               digits a \<and> digits b \<and> digits c" by simp
    then show ?thesis unfolding re_match_version by blast
  qed
qed

subsection \<open>C9: no metadata request for a rejected tag\<close>

text \<open>
  C9: a tag that the version filter rejects is never the tag of a metadata request, in
  any run, whether the run completes or stops early.
\<close>

theorem filter_before_fetch:
  assumes "\<not> re_match VERSION_REGEX tag"
  shows "MetadataFetch i tag rq reply \<notin> set (trace (final (main no_cache pkgs net cfile ifile)))"
proof
  let ?s0 = "initial_state no_cache cfile ifile"
  assume a: "MetadataFetch i tag rq reply \<in> set (trace (final (main no_cache pkgs net cfile ifile)))"
  from packages_loop_progress[of ?s0 no_cache net pkgs]
  have "list_all (fresh_fetch (index ?s0)) (trace (final (packages_loop no_cache net pkgs ?s0)))"
    by (auto simp: progress_def initial_state_def)
  with a have "fresh_fetch (index ?s0) (MetadataFetch i tag rq reply)"
    by (simp add: main_final list_all_iff)
  with assms show False by (simp add: fresh_fetch_def)
qed

text \<open>
  In the run on the demo repository the tag main is rejected and never requested, while
  v1.0.0 and v1.0.1 are.
\<close>

theorem filter_before_fetch_witness:
  "\<not> re_match VERSION_REGEX ''main'' \<and>
   MetadataFetch ''demoapp'' ''main''
      \<lparr>url = ''https://raw.githubusercontent.com/acme/demo/main/metadata.json'', req_headers = []\<rparr>
      (Some \<lparr>status_code = 200, headers = [], json_body = Some demo_metadata\<rparr>)
     \<notin> set (trace (final (main False [demo] demo_net None None))) \<and>
   list_ex (fetches_metadata ''demoapp'' ''v1.0.0'') (trace (final (main False [demo] demo_net None None))) \<and>
   list_ex (fetches_metadata ''demoapp'' ''v1.0.1'') (trace (final (main False [demo] demo_net None None)))"
proof -
  have n: "\<not> re_match VERSION_REGEX ''main''"
    by (simp add: re_match_def VERSION_REGEX_def)
  have f: "list_ex (fetches_metadata ''demoapp'' ''v1.0.0'') (trace (final (main False [demo] demo_net None None))) \<and>
           list_ex (fetches_metadata ''demoapp'' ''v1.0.1'') (trace (final (main False [demo] demo_net None None)))"
    by (simp add: run_defs demo_def refs_def demo_metadata_def demo_tags_url_def tag_list_reply_def demo_net_def fetches_metadata_def)
  from n f filter_before_fetch[OF n] show ?thesis by blast
qed

subsection \<open>C2: a recorded version is kept\<close>

text \<open>
  C2 as stated fails for a later run with caching disabled: the run does not read the
  Index Document, requests the metadata of a recorded tag again and writes a document
  without the record when that request fails.
\<close>

theorem recorded_version_refetched_without_cache:
  "version_of demo_index ''demoapp'' ''v1.0.0'' = Some demo_version \<and>
   list_ex (fetches_metadata ''demoapp'' ''v1.0.0'')
     (trace (final (main True [demo] bare_net None (Some demo_index)))) \<and>
   doc_version (index_file (final (main True [demo] bare_net None (Some demo_index))))
     ''demoapp'' ''v1.0.0'' = None"
  by (simp add: run_defs demo_def other_def refs_def demo_tags_url_def tag_list_reply_def bare_net_def demo_version_def demo_index_def fetches_metadata_def version_of_def doc_version_def)

text \<open>
  C2, amended: once a Version Record is in the index of a run, no later iteration of
  the loop over the tags or of the loop over the packages requests the metadata of
  that tag again, and each leaves the record as it is; and a run with caching enabled
  that finds the record in the index file requests nothing for that tag and leaves
  the record in the index file, whether it completes or stops early.
\<close>

theorem recorded_version_kept:
  "(version_of (index s) i t = Some v \<longrightarrow>
      version_of (index (final (tags_loop net p tags s))) i t = Some v \<and>
      (\<exists>es. trace (final (tags_loop net p tags s)) = trace s @ es \<and>
            \<not> list_ex (fetches_metadata i t) es)) \<and>
   (version_of (index s) i t = Some v \<longrightarrow>
      version_of (index (final (packages_loop no_cache net pkgs s))) i t = Some v \<and>
      (\<exists>es. trace (final (packages_loop no_cache net pkgs s)) = trace s @ es \<and>
            \<not> list_ex (fetches_metadata i t) es)) \<and>
   (version_of d i t = Some v \<longrightarrow>
      doc_version (index_file (final (main False pkgs net cfile (Some d)))) i t = Some v \<and>
      \<not> list_ex (fetches_metadata i t) (trace (final (main False pkgs net cfile (Some d)))))"
proof (intro conjI impI)
  assume v: "version_of (index s) i t = Some v"
  show "version_of (index (final (tags_loop net p tags s))) i t = Some v"
    using progress_version[OF tags_loop_progress v] by blast
  show "\<exists>es. trace (final (tags_loop net p tags s)) = trace s @ es \<and>
            \<not> list_ex (fetches_metadata i t) es"
    using progress_version[OF tags_loop_progress v] by blast
  show "version_of (index (final (packages_loop no_cache net pkgs s))) i t = Some v"
    using progress_version[OF packages_loop_progress v] by blast
  show "\<exists>es. trace (final (packages_loop no_cache net pkgs s)) = trace s @ es \<and>
            \<not> list_ex (fetches_metadata i t) es"
    using progress_version[OF packages_loop_progress v] by blast
next
  let ?s0 = "initial_state False cfile (Some d)"
  let ?s' = "final (packages_loop False net pkgs ?s0)"
  assume v: "version_of d i t = Some v"
  then have v0: "version_of (index ?s0) i t = Some v"
    by (simp add: initial_state_def)
  from progress_version[OF packages_loop_progress v0, of False net pkgs]
  have k: "version_of (index ?s') i t = Some v"
    and n: "\<not> list_ex (fetches_metadata i t) (trace ?s')"
    by (auto simp: initial_state_def)
  show "doc_version (index_file (final (main False pkgs net cfile (Some d)))) i t = Some v"
    using k v by (simp add: main_index_file doc_version_def split: sum.splits)
  show "\<not> list_ex (fetches_metadata i t) (trace (final (main False pkgs net cfile (Some d))))"
    using n by (simp add: main_final)
qed

text \<open>
  The run on the demo repository with caching enabled, from the index of the earlier
  run: v1.0.0 stays as it was and is not requested, in the loops and in the whole run.
\<close>

theorem recorded_version_kept_witness:
  "version_of demo_index ''demoapp'' ''v1.0.0'' = Some demo_version \<and>
   version_of (index (final (tags_loop demo_net demo [''v1.0.0'', ''v1.0.1'']
       (initial_state False None (Some demo_index))))) ''demoapp'' ''v1.0.0'' = Some demo_version \<and>
   version_of (index (final (packages_loop False demo_net [demo]
       (initial_state False None (Some demo_index))))) ''demoapp'' ''v1.0.0'' = Some demo_version \<and>
   doc_version (index_file (final (main False [demo] demo_net None (Some demo_index))))
     ''demoapp'' ''v1.0.0'' = Some demo_version \<and>
   \<not> list_ex (fetches_metadata ''demoapp'' ''v1.0.0'')
       (trace (final (main False [demo] demo_net None (Some demo_index))))"
proof -
  have v: "version_of demo_index ''demoapp'' ''v1.0.0'' = Some demo_version"
    by (simp add: version_of_def demo_index_def)
  then have v0: "version_of (index (initial_state False None (Some demo_index)))
                   ''demoapp'' ''v1.0.0'' = Some demo_version"
    by (simp add: initial_state_def)
  from v v0
    recorded_version_kept[of "initial_state False None (Some demo_index)" "''demoapp''"
      "''v1.0.0''" demo_version demo_net demo "[''v1.0.0'', ''v1.0.1'']" False "[demo]"
      demo_index None]
  show ?thesis by blast
qed

subsection \<open>C3: the quota signal\<close>

text \<open>
  C3 says that a tag-listing response with status 401 and a zero remaining-rate-limit
  header ends the run at once with exit code 1. Line 91 compares the header, a string,
  with the integer 0, so the test is never true. Here both packages have a Cache Entry
  and every response is the quota signal: the run goes on with the cached tag lists,
  requests the tags of the second package and ends with exit code 0.
\<close>

theorem quota_signal_ignored:
  "quota_exhausted quota_reply = Inr False \<and>
   exit_code (main False [demo, other] quota_net (Some quota_cache) None) = 0 \<and>
   num_packages (final (main False [demo, other] quota_net (Some quota_cache) None)) = 2 \<and>
   list_ex (requests_tags_of ''other'')
     (trace (final (main False [demo, other] quota_net (Some quota_cache) None)))"
  by (simp add: run_defs demo_def other_def refs_def quota_reply_def quota_net_def quota_cache_def requests_tags_of_def)

text \<open>No response at all makes the test of line 91 true.\<close>

lemma quota_exhausted_never: "quota_exhausted resp \<noteq> Inr True"
  by (simp add: quota_exhausted_def split: option.splits)

subsection \<open>C5: a metadata file that cannot be decoded\<close>

text \<open>
  C5 says that a metadata response whose body cannot be decoded makes the run skip
  that tag only and complete with exit code 0. With status 200 the body is decoded at
  line 153 and the exception is not caught: the run stops at the first such tag, the
  next tag is not requested, the exit status is 1 and the index file is not written.
\<close>

theorem undecodable_metadata_aborts:
  "exit_code (main False [demo] garbled_net None None) = 1 \<and>
   (case main False [demo] garbled_net None None of
      Inl (a, s) \<Rightarrow> a = Uncaught JSONDecodeError
    | Inr s \<Rightarrow> False) \<and>
   index_file (final (main False [demo] garbled_net None None)) = None \<and>
   list_ex (fetches_metadata ''demoapp'' ''v1.0.0'')
     (trace (final (main False [demo] garbled_net None None))) \<and>
   \<not> list_ex (fetches_metadata ''demoapp'' ''v1.0.1'')
     (trace (final (main False [demo] garbled_net None None)))"
  by (simp add: run_defs demo_def refs_def demo_tags_url_def tag_list_reply_def garbled_net_def fetches_metadata_def)

text \<open>
  The rest of C5 holds: a reply with a status other than 200, or with an empty
  document, makes the iteration count a miss and go on to the next tag with the index
  as it was.
\<close>

lemma skipped_reply_skips_tag_only:
  assumes "re_match VERSION_REGEX tag"
      and "packages (index s) (pkg_id p) = Some r" and "versions r tag = None"
      and "metadata_url p tag = Inr u" and "has_scheme u"
      and "net (length (trace s)) \<lparr>url = u, req_headers = []\<rparr> = Some resp"
      and "skipped_reply (Some resp)"
  shows "process_tag net p tag s =
           Inr (s\<lparr>misses := misses s + 1,
                  trace := trace s @ [MetadataFetch (pkg_id p) tag \<lparr>url = u, req_headers = []\<rparr>
                                        (Some resp)]\<rparr>)"
  using assms
  by (auto simp: process_tag_def Let_def skipped_reply_def split: option.splits)

subsection \<open>C4: a repository that does not exist\<close>

text \<open>
  C4: when a tag-listing request of a run is answered with status 404, the process
  exits with code 2. That request is the last one the run issues, and the index file
  is left as the run found it.
\<close>

theorem repository_not_found_exit:
  assumes "TagsFetch i rq (Some resp) \<in> set (trace (final (main no_cache pkgs net cfile ifile)))"
      and "status_code resp = 404"
  shows "exit_code (main no_cache pkgs net cfile ifile) = 2 \<and>
         last (trace (final (main no_cache pkgs net cfile ifile))) = TagsFetch i rq (Some resp) \<and>
         index_file (final (main no_cache pkgs net cfile ifile)) = ifile"
proof -
  let ?r = "main no_cache pkgs net cfile ifile"
  let ?e = "TagsFetch i rq (Some resp)"
  have nf: "tags_not_found ?e" using assms(2) by (simp add: tags_not_found_def)
  with assms(1) have nc: "\<not> clean (trace (final ?r))"
    by (auto simp: clean_def list_ex_iff)
  from main_not_found[of no_cache pkgs net cfile ifile] nc
  obtain s where r: "?r = Inl (SysExit 2, s)" and b: "clean (butlast (trace s))"
    by (auto simp: not_found_last_def split: sum.splits)
  from assms(1) r have ne: "trace s \<noteq> []" and m: "?e \<in> set (trace s)" by auto
  from b nf have "?e \<notin> set (butlast (trace s))"
    by (auto simp: clean_def list_ex_iff)
  with m ne have "last (trace s) = ?e"
    by (metis append_butlast_last_id in_set_conv_decomp last_snoc self_append_conv2 set_ConsD set_append UnE list.set(1) empty_iff)
  moreover have "index_file (final ?r) = ifile"
    by (subst main_index_file) (simp add: r)
  ultimately show ?thesis using r by simp
qed

text \<open>
  A provider that knows no repository: the run stops at the first package, the second
  is never requested.
\<close>

theorem repository_not_found_exit_witness:
  "TagsFetch ''demoapp'' \<lparr>url = demo_tags_url, req_headers = []\<rparr>
       (Some \<lparr>status_code = 404, headers = [], json_body = None\<rparr>)
     \<in> set (trace (final (main False [demo, other] missing_net None None))) \<and>
   status_code \<lparr>status_code = 404, headers = [], json_body = None\<rparr> = 404 \<and>
   exit_code (main False [demo, other] missing_net None None) = 2 \<and>
   last (trace (final (main False [demo, other] missing_net None None))) =
     TagsFetch ''demoapp'' \<lparr>url = demo_tags_url, req_headers = []\<rparr>
       (Some \<lparr>status_code = 404, headers = [], json_body = None\<rparr>) \<and>
   index_file (final (main False [demo, other] missing_net None None)) = None"
proof -
  have m: "TagsFetch ''demoapp'' \<lparr>url = demo_tags_url, req_headers = []\<rparr>
       (Some \<lparr>status_code = 404, headers = [], json_body = None\<rparr>)
     \<in> set (trace (final (main False [demo, other] missing_net None None)))"
    by (simp add: run_defs demo_def other_def demo_tags_url_def missing_net_def)
  have c: "status_code \<lparr>status_code = 404, headers = [], json_body = None\<rparr> = 404"
    by simp
  from m c repository_not_found_exit[OF m c] show ?thesis by blast
qed

subsection \<open>C7: the default compatibility range\<close>



subsection \<open>C8: what a recorded version changes in the Package Record\<close>

text \<open>
  C8 as stated fails: the metadata is never read for git or icon. Here the metadata
  carries both, and after the run the Package Record still has the git coordinates and
  the icon of the Package Descriptor, while the Version Record is there.
\<close>

theorem git_and_icon_not_overwritten:
  "subscript rich_metadata ''icon'' = Inr (JStr ''new.png'') \<and>
   map_option icon (packages (index (final (main False [demo] rich_net None None))) ''demoapp'')
     = Some (JStr ''demo.png'') \<and>
   map_option (\<lambda>r. Inr (git r)) (packages (index (final (main False [demo] rich_net None None))) ''demoapp'')
     \<noteq> Some (subscript rich_metadata ''git'') \<and>
   map_option git (packages (index (final (main False [demo] rich_net None None))) ''demoapp'')
     = Some (git (package_header demo)) \<and>
   doc_version (index_file (final (main False [demo] rich_net None None))) ''demoapp'' ''v1.0.0''
     \<noteq> None"
  by (simp add: run_defs demo_def refs_def rich_metadata_def demo_tags_url_def tag_list_reply_def rich_net_def doc_version_def version_of_def)

text \<open>
  C8, amended: an iteration of the loop over the tags that fetches a metadata document
  with status 200 and a non-empty decoded value, and completes, overwrites the name and
  the description of the Package Record with those of the metadata, leaves its git
  and icon as they were, leaves every other Version Record as it was, and inserts a
  Version Record for the tag, which had none, with the dependencies of the metadata.
\<close>

theorem record_version_fields:
  assumes "completed (process_tag net p tag s)"
      and "trace (final (process_tag net p tag s)) =
             trace s @ [MetadataFetch (pkg_id p) tag rq (Some resp)]"
      and "status_code resp = 200" and "json_body resp = Some md" and "py_len md \<noteq> Inr 0"
  shows "\<exists>r r'. packages (index s) (pkg_id p) = Some r \<and> versions r tag = None \<and>
           packages (index (final (process_tag net p tag s))) =
             (packages (index s))(pkg_id p \<mapsto> r') \<and>
           recorded_from md tag r r'"
proof -
  from process_tag_fetched[OF assms(1-5)] obtain r where
    r: "packages (index s) (pkg_id p) = Some r" "versions r tag = None"
    and e: "process_tag net p tag s =
          record_version p tag md r
            (s\<lparr>misses := misses s + 1,
               trace := trace s @ [MetadataFetch (pkg_id p) tag rq (Some resp)]\<rparr>)"
    by blast
  with assms(1) have "completed (record_version p tag md r
            (s\<lparr>misses := misses s + 1,
               trace := trace s @ [MetadataFetch (pkg_id p) tag rq (Some resp)]\<rparr>))" by simp
  from record_version_completed[OF this] r e show ?thesis
    by auto
qed

text \<open>The first iteration of a first run on the demo repository.\<close>

theorem record_version_fields_witness:
  "completed (process_tag demo_net demo ''v1.0.0'' demo_start) \<and>
   trace (final (process_tag demo_net demo ''v1.0.0'' demo_start)) =
     trace demo_start @ [MetadataFetch (pkg_id demo) ''v1.0.0'' v100_request (Some demo_response)] \<and>
   status_code demo_response = 200 \<and> json_body demo_response = Some demo_metadata \<and>
   py_len demo_metadata \<noteq> Inr 0 \<and>
   (\<exists>r r'. packages (index demo_start) (pkg_id demo) = Some r \<and> versions r ''v1.0.0'' = None \<and>
      packages (index (final (process_tag demo_net demo ''v1.0.0'' demo_start))) =
        (packages (index demo_start))(pkg_id demo \<mapsto> r') \<and>
      recorded_from demo_metadata ''v1.0.0'' r r')"
proof -
  have c: "completed (process_tag demo_net demo ''v1.0.0'' demo_start)"
    by (simp add: run_defs demo_def refs_def demo_metadata_def demo_tags_url_def tag_list_reply_def demo_net_def demo_start_def v100_request_def demo_response_def completed_def)
  have t: "trace (final (process_tag demo_net demo ''v1.0.0'' demo_start)) =
     trace demo_start @ [MetadataFetch (pkg_id demo) ''v1.0.0'' v100_request (Some demo_response)]"
    by (simp add: run_defs demo_def refs_def demo_metadata_def demo_tags_url_def tag_list_reply_def demo_net_def demo_start_def v100_request_def demo_response_def)
  have r: "status_code demo_response = 200" "json_body demo_response = Some demo_metadata"
    by (simp_all add: demo_response_def)
  have m: "py_len demo_metadata \<noteq> Inr 0"
    by (simp add: demo_metadata_def)
  from c t r m record_version_fields[OF c t r m] show ?thesis
    by blast
qed

subsection \<open>C10: the header of a package with no recorded version\<close>

text \<open>
  C10 as stated fails in two ways. When a later package stops the run, the index file
  is not written, so the package is not in the persisted document. And when the index
  file already has a Package Record for the package, that record is kept with its
  name, description and versions.
\<close>

theorem header_not_always_persisted:
  "exit_code (main False [demo, other] bare_net None None) = 2 \<and>
   list_ex (requests_tags_of ''demoapp'') (trace (final (main False [demo, other] bare_net None None))) \<and>
   list_all (skipped_for ''demoapp'') (trace (final (main False [demo, other] bare_net None None))) \<and>
   index_file (final (main False [demo, other] bare_net None None)) = None \<and>
   completed (main False [demo] renamed_net None (Some demo_index)) \<and>
   list_ex (fetches_metadata ''demoapp'' ''v2.0.0'')
     (trace (final (main False [demo] renamed_net None (Some demo_index)))) \<and>
   list_all (skipped_for ''demoapp'') (trace (final (main False [demo] renamed_net None (Some demo_index)))) \<and>
   doc_version (index_file (final (main False [demo] renamed_net None (Some demo_index))))
     ''demoapp'' ''v1.0.0'' = Some demo_version"
  by (simp add: run_defs demo_def other_def refs_def demo_tags_url_def tag_list_reply_def bare_net_def renamed_net_def demo_version_def demo_index_def requests_tags_of_def skipped_for_def skipped_reply_def
        fetches_metadata_def completed_def doc_version_def version_of_def)

text \<open>
  C10, amended: in a run that completes, a listed package that the index the run starts
  from does not have, and for which no metadata request of the run succeeds (status
  other than 200, or an empty document), is in the index file the run writes with the
  header of lines 118 to 126: git and icon of its first descriptor, no versions, no
  name and no description.
\<close>

theorem header_persisted:
  assumes "completed (main no_cache pkgs net cfile ifile)"
      and "packages (index (initial_state no_cache cfile ifile)) i = None"
      and "find (\<lambda>q. pkg_id q = i) pkgs = Some p"
      and "list_all (skipped_for i) (trace (final (main no_cache pkgs net cfile ifile)))"
  shows "map_option (\<lambda>d. packages d i) (index_file (final (main no_cache pkgs net cfile ifile)))
           = Some (Some (package_header p))"
proof -
  from assms(1) obtain s' where m: "main no_cache pkgs net cfile ifile = Inr s'"
    by (rule completedE)
  then obtain s1 where
    l: "packages_loop no_cache net pkgs (initial_state no_cache cfile ifile) = Inr s1"
    and s': "s' = s1\<lparr>index_file := Some (index s1)\<rparr>"
    by (auto simp: main_def split: sum.splits)
  from assms(4) m s' have "list_all (skipped_for i) (trace s1)" by simp
  from packages_loop_skipped[OF l this] assms(2,3)
  have "packages (index s1) i = Some (package_header p)" by simp
  with s' m show ?thesis by simp
qed

text \<open>A first run on the demo repository when no release has a metadata.json.\<close>

theorem header_persisted_witness:
  "completed (main False [demo] bare_net None None) \<and>
   packages (index (initial_state False None None)) ''demoapp'' = None \<and>
   find (\<lambda>q. pkg_id q = ''demoapp'') [demo] = Some demo \<and>
   list_all (skipped_for ''demoapp'') (trace (final (main False [demo] bare_net None None))) \<and>
   list_ex (fetches_metadata ''demoapp'' ''v1.0.1'') (trace (final (main False [demo] bare_net None None))) \<and>
   map_option (\<lambda>d. packages d ''demoapp'') (index_file (final (main False [demo] bare_net None None)))
     = Some (Some (package_header demo))"
proof -
  have c: "completed (main False [demo] bare_net None None)"
    by (simp add: run_defs demo_def other_def refs_def demo_tags_url_def tag_list_reply_def bare_net_def completed_def)
  have i: "packages (index (initial_state False None None)) ''demoapp'' = None"
    by (simp add: initial_state_def)
  have f: "find (\<lambda>q. pkg_id q = ''demoapp'') [demo] = Some demo"
    by (simp add: demo_def)
  have l: "list_all (skipped_for ''demoapp'') (trace (final (main False [demo] bare_net None None)))"
    by (simp add: run_defs demo_def other_def refs_def demo_tags_url_def tag_list_reply_def bare_net_def skipped_for_def skipped_reply_def)
  have e: "list_ex (fetches_metadata ''demoapp'' ''v1.0.1'') (trace (final (main False [demo] bare_net None None)))"
    by (simp add: run_defs demo_def other_def refs_def demo_tags_url_def tag_list_reply_def bare_net_def fetches_metadata_def)
  from c i f l e header_persisted[OF c i f l] show ?thesis
    by blast
qed

subsection \<open>C1: a second run with nothing new\<close>




end
